theory Spec2Isabelle
  imports Main "HOL-Library.Multiset"
begin

section \<open>Python strings\<close>

text \<open>
  The deployer parses the output of \<^verbatim>\<open>docker images\<close> with \<^verbatim>\<open>str.split\<close>,
  \<^verbatim>\<open>str.replace\<close> and \<^verbatim>\<open>str.startswith\<close>, and compares operator answers after
  \<^verbatim>\<open>str.lower\<close>. A Python string is a \<^typ>\<open>string\<close>; the separators used by the
  source are never empty, and both functions scan from the left for non-overlapping
  occurrences, as CPython does.
\<close>

definition startswith :: "string \<Rightarrow> string \<Rightarrow> bool" where
  "startswith s p = (take (length p) s = p)"

function str_split :: "string \<Rightarrow> string \<Rightarrow> string list" where
  "str_split [] sep = [[]]"
| "str_split (c # cs) sep =
     (if sep \<noteq> [] \<and> startswith (c # cs) sep
      then [] # str_split (drop (length sep) (c # cs)) sep
      else (case str_split cs sep of
              [] \<Rightarrow> [[c]]
            | p # ps \<Rightarrow> (c # p) # ps))"
  by pat_completeness auto
termination
  by (relation "measure (\<lambda>(s, sep). length s)") (auto simp: neq_Nil_conv)

function str_replace :: "string \<Rightarrow> string \<Rightarrow> string \<Rightarrow> string" where
  "str_replace [] old new = []"
| "str_replace (c # cs) old new =
     (if old \<noteq> [] \<and> startswith (c # cs) old
      then new @ str_replace (drop (length old) (c # cs)) old new
      else c # str_replace cs old new)"
  by pat_completeness auto
termination
  by (relation "measure (\<lambda>(s, old, new). length s)") (auto simp: neq_Nil_conv)

definition lower_char :: "char \<Rightarrow> char" where
  "lower_char c =
     (if 65 \<le> (of_char c :: nat) \<and> (of_char c :: nat) \<le> 90
      then char_of ((of_char c :: nat) + 32) else c)"

definition lower :: "string \<Rightarrow> string" where
  "lower s = map lower_char s"

section \<open>Data model\<close>

text \<open>\<^verbatim>\<open>scanner.Challenge\<close>: the fields the deployer reads. \<^verbatim>\<open>id\<close> is set by the
  constructor to \<^verbatim>\<open>f"{category}-{name}"\<close>.\<close>

record challenge =
  name :: string
  path :: string
  port :: int
  category :: string
  subcategory :: string

definition challenge_id :: "challenge \<Rightarrow> string" where
  "challenge_id c = category c @ ''-'' @ name c"

text \<open>The manifests are Python dicts; the fields the source writes become record
  fields. \<^verbatim>\<open>metadata.labels\<close> is the empty list where the dict has no such key.\<close>

record container =
  container_name :: string
  image :: string
  containerPorts :: "int list"

record service_port =
  protocol :: string
  service_port :: int
  targetPort :: int
  nodePort :: int

datatype spec =
    DeploymentSpec int "(string \<times> string) list" "(string \<times> string) list" "container list" string
  | ServiceSpec string string "(string \<times> string) list" "service_port list"
  | HorizontalPodAutoscalerSpec "string \<times> string \<times> string" int int int
  | PodSpec "container list"

record resource =
  apiVersion :: string
  kind :: string
  metadata_name :: string
  metadata_namespace :: string
  metadata_labels :: "(string \<times> string) list"
  spec :: spec

definition DEFAULT_INTERNAL_PORT :: int where
  "DEFAULT_INTERNAL_PORT = 5000"

definition REGISTRY :: string where
  "REGISTRY = ''registry.local:5000/''"

definition MANAGED_BY :: "string \<times> string" where
  "MANAGED_BY = (''securitylab.disi.unitn.it/managed-by'', ''true'')"

section \<open>The world the script runs in\<close>

datatype error =
    ApiException | AttributeError | ValueError | IndexError
  | UnboundLocalError | EOFError | KeyboardInterrupt

datatype client = CoreV1Api | AppsV1Api | AutoscalingV1Api

datatype objkind = Service | Deployment | HorizontalPodAutoscaler | Pod

datatype request =
    Read string
  | Replace string resource
  | Create resource
  | List "(string \<times> string) option"
  | Delete string

datatype prompt = PressEnter | ConfirmDelete objkind "string list"

datatype event =
    Call client objkind request
  | Input prompt
  | DockerImages
  | PoolMap "string list"

datatype reply = Line string | Interrupt

text \<open>
  Everything outside the script is one record: the objects of namespace
  \<^verbatim>\<open>ethical-hacking\<close> per kind, in listing order; the API server's validation of a
  submitted manifest; the paths that exist on disk; what the operator will type; the
  successive outputs of \<^verbatim>\<open>sudo docker images\<close>; and the trace of everything the
  script has done so far. Controllers that act on the cluster by themselves are not part
  of it.
\<close>

record world =
  objects :: "objkind \<Rightarrow> resource list"
  admission :: "resource \<Rightarrow> bool"
  files :: "string list"
  stdin :: "reply list"
  docker_stdout :: "string list"
  trace :: "event list"

type_synonym 'a prog = "world \<Rightarrow> (error + 'a) \<times> world"

definition ret :: "'a \<Rightarrow> 'a prog" where
  "ret a w = (Inr a, w)"

definition raise :: "error \<Rightarrow> 'a prog" where
  "raise e w = (Inl e, w)"

definition bind :: "'a prog \<Rightarrow> ('a \<Rightarrow> 'b prog) \<Rightarrow> 'b prog" where
  "bind m f w = (case m w of (Inl e, w') \<Rightarrow> (Inl e, w') | (Inr a, w') \<Rightarrow> f a w')"

text \<open>\<^verbatim>\<open>except Exception\<close> catches everything but \<^verbatim>\<open>KeyboardInterrupt\<close>.\<close>

definition is_Exception :: "error \<Rightarrow> bool" where
  "is_Exception e = (e \<noteq> KeyboardInterrupt)"

definition try_except :: "'a prog \<Rightarrow> (error \<Rightarrow> 'a prog) \<Rightarrow> 'a prog" where
  "try_except m h w =
     (case m w of
        (Inl e, w') \<Rightarrow> if is_Exception e then h e w' else (Inl e, w')
      | (Inr a, w') \<Rightarrow> (Inr a, w'))"

fun for_each :: "'a list \<Rightarrow> ('a \<Rightarrow> unit prog) \<Rightarrow> unit prog" where
  "for_each [] f w = (Inr (), w)"
| "for_each (x # xs) f w =
     (case f x w of (Inl e, w') \<Rightarrow> (Inl e, w') | (Inr _, w') \<Rightarrow> for_each xs f w')"

definition log :: "event \<Rightarrow> world \<Rightarrow> world" where
  "log e w = w\<lparr>trace := trace w @ [e]\<rparr>"

definition path_exists :: "string \<Rightarrow> world \<Rightarrow> bool" where
  "path_exists p w = (p \<in> set (files w))"

text \<open>\<^verbatim>\<open>input(prompt)\<close>: end of input raises \<^verbatim>\<open>EOFError\<close>.\<close>

definition input :: "prompt \<Rightarrow> string prog" where
  "input p w =
     (let w' = log (Input p) w in
      case stdin w' of
        [] \<Rightarrow> (Inl EOFError, w')
      | Interrupt # rest \<Rightarrow> (Inl KeyboardInterrupt, w'\<lparr>stdin := rest\<rparr>)
      | Line s # rest \<Rightarrow> (Inr s, w'\<lparr>stdin := rest\<rparr>))"

text \<open>\<^verbatim>\<open>subprocess.run("sudo docker images --format ...")\<close>: the next output of the
  queue; a command that prints nothing gives the empty string.\<close>

definition docker_images :: "string prog" where
  "docker_images w =
     (let w' = log DockerImages w in
      case docker_stdout w' of
        [] \<Rightarrow> (Inr [], w')
      | out # rest \<Rightarrow> (Inr out, w'\<lparr>docker_stdout := rest\<rparr>))"

text \<open>\<^verbatim>\<open>Pool().map(run_command, commands)\<close>: \<^verbatim>\<open>run_command\<close> discards output and exit
  status.\<close>

definition pool_map :: "string list \<Rightarrow> unit prog" where
  "pool_map commands w = (Inr (), log (PoolMap commands) w)"

subsection \<open>The Kubernetes client\<close>

text \<open>
  Which client class has the \<^verbatim>\<open>*_namespaced_<kind>\<close> methods: services and pods are
  served by \<^verbatim>\<open>CoreV1Api\<close>, deployments by \<^verbatim>\<open>AppsV1Api\<close>, autoscalers by
  \<^verbatim>\<open>AutoscalingV1Api\<close>. Looking up a method a class does not have raises
  \<^verbatim>\<open>AttributeError\<close> before any request is sent.
\<close>

fun serves :: "client \<Rightarrow> objkind \<Rightarrow> bool" where
  "serves CoreV1Api k = (k = Service \<or> k = Pod)"
| "serves AppsV1Api k = (k = Deployment)"
| "serves AutoscalingV1Api k = (k = HorizontalPodAutoscaler)"

definition lookup :: "resource list \<Rightarrow> string \<Rightarrow> resource option" where
  "lookup rs n = find (\<lambda>r. metadata_name r = n) rs"

fun replace_first :: "string \<Rightarrow> resource \<Rightarrow> resource list \<Rightarrow> resource list" where
  "replace_first n b [] = []"
| "replace_first n b (r # rs) =
     (if metadata_name r = n then b # rs else r # replace_first n b rs)"

fun remove_first :: "string \<Rightarrow> resource list \<Rightarrow> resource list" where
  "remove_first n [] = []"
| "remove_first n (r # rs) =
     (if metadata_name r = n then rs else r # remove_first n rs)"

definition matches :: "(string \<times> string) option \<Rightarrow> resource \<Rightarrow> bool" where
  "matches label_selector r =
     (case label_selector of
        None \<Rightarrow> True
      | Some (k, v) \<Rightarrow> map_of (metadata_labels r) k = Some v)"

definition set_objects :: "objkind \<Rightarrow> resource list \<Rightarrow> world \<Rightarrow> world" where
  "set_objects k rs w = w\<lparr>objects := (objects w)(k := rs)\<rparr>"

definition read_namespaced :: "client \<Rightarrow> objkind \<Rightarrow> string \<Rightarrow> resource prog" where
  "read_namespaced cl k n w =
     (let w' = log (Call cl k (Read n)) w in
      if \<not> serves cl k then (Inl AttributeError, w')
      else case lookup (objects w' k) n of
             None \<Rightarrow> (Inl ApiException, w')
           | Some r \<Rightarrow> (Inr r, w'))"

definition replace_namespaced :: "client \<Rightarrow> objkind \<Rightarrow> string \<Rightarrow> resource \<Rightarrow> unit prog" where
  "replace_namespaced cl k n body w =
     (let w' = log (Call cl k (Replace n body)) w in
      if \<not> serves cl k then (Inl AttributeError, w')
      else if lookup (objects w' k) n = None \<or> \<not> admission w' body then (Inl ApiException, w')
      else (Inr (), set_objects k (replace_first n body (objects w' k)) w'))"

definition create_namespaced :: "client \<Rightarrow> objkind \<Rightarrow> resource \<Rightarrow> unit prog" where
  "create_namespaced cl k body w =
     (let w' = log (Call cl k (Create body)) w in
      if \<not> serves cl k then (Inl AttributeError, w')
      else if lookup (objects w' k) (metadata_name body) \<noteq> None \<or> \<not> admission w' body
           then (Inl ApiException, w')
      else (Inr (), set_objects k (objects w' k @ [body]) w'))"

definition list_namespaced ::
  "client \<Rightarrow> objkind \<Rightarrow> (string \<times> string) option \<Rightarrow> resource list prog" where
  "list_namespaced cl k label_selector w =
     (let w' = log (Call cl k (List label_selector)) w in
      if \<not> serves cl k then (Inl AttributeError, w')
      else (Inr (filter (matches label_selector) (objects w' k)), w'))"

definition delete_namespaced :: "client \<Rightarrow> objkind \<Rightarrow> string \<Rightarrow> unit prog" where
  "delete_namespaced cl k n w =
     (let w' = log (Call cl k (Delete n)) w in
      if \<not> serves cl k then (Inl AttributeError, w')
      else if lookup (objects w' k) n = None then (Inl ApiException, w')
      else (Inr (), set_objects k (remove_first n (objects w' k)) w'))"

section \<open>The deployer\<close>

text \<open>Every API call of the source names namespace \<^verbatim>\<open>ethical-hacking\<close>, whose
  contents \<^const>\<open>objects\<close> holds. \<^verbatim>\<open>print\<close> has no effect that is modelled.\<close>

definition create_or_update_service :: "resource \<Rightarrow> unit prog" where
  "create_or_update_service service =
     try_except
       (bind (read_namespaced CoreV1Api Service (metadata_name service))
          (\<lambda>_. replace_namespaced CoreV1Api Service (metadata_name service) service))
       (\<lambda>e. create_namespaced CoreV1Api Service service)"

definition create_or_update_deployment :: "resource \<Rightarrow> unit prog" where
  "create_or_update_deployment deployment =
     try_except
       (bind (read_namespaced AppsV1Api Deployment (metadata_name deployment))
          (\<lambda>_. replace_namespaced AppsV1Api Deployment (metadata_name deployment) deployment))
       (\<lambda>e. create_namespaced AppsV1Api Deployment deployment)"

definition create_or_update_horizontal_pod_autoscaler :: "resource \<Rightarrow> unit prog" where
  "create_or_update_horizontal_pod_autoscaler hpa =
     try_except
       (bind (read_namespaced AutoscalingV1Api HorizontalPodAutoscaler (metadata_name hpa))
          (\<lambda>_. replace_namespaced AutoscalingV1Api HorizontalPodAutoscaler
                  (metadata_name hpa) hpa))
       (\<lambda>e. create_namespaced AutoscalingV1Api HorizontalPodAutoscaler hpa)"

definition create_or_update_resource :: "resource \<Rightarrow> unit prog" where
  "create_or_update_resource resource =
     (if kind resource = ''Service'' then create_or_update_service resource
      else if kind resource = ''Deployment'' then create_or_update_deployment resource
      else if kind resource = ''HorizontalPodAutoscaler''
           then create_or_update_horizontal_pod_autoscaler resource
      else raise ValueError)"

subsection \<open>\<^verbatim>\<open>update_pods\<close>\<close>

text \<open>\<^verbatim>\<open>pod.spec.containers[0].image\<close>: an empty container list raises
  \<^verbatim>\<open>IndexError\<close>.\<close>

definition first_container_image :: "resource \<Rightarrow> error + string" where
  "first_container_image pod =
     (case spec pod of
        PodSpec [] \<Rightarrow> Inl IndexError
      | PodSpec (c # _) \<Rightarrow> Inr (image c)
      | _ \<Rightarrow> Inl AttributeError)"

fun select_pods :: "resource list \<Rightarrow> string list \<Rightarrow> string list \<Rightarrow> error + string list" where
  "select_pods [] images pods_to_delete = Inr pods_to_delete"
| "select_pods (pod # rest) images pods_to_delete =
     (case first_container_image pod of
        Inl e \<Rightarrow> Inl e
      | Inr img \<Rightarrow>
          if img \<in> set images
          then select_pods rest images (pods_to_delete @ [metadata_name pod])
          else select_pods rest images pods_to_delete)"

definition update_pods :: "string list \<Rightarrow> unit prog" where
  "update_pods images =
     bind (list_namespaced CoreV1Api Pod (Some MANAGED_BY))
       (\<lambda>pods.
          case select_pods pods images [] of
            Inl e \<Rightarrow> raise e
          | Inr pods_to_delete \<Rightarrow>
              if length pods_to_delete > 0
              then bind (input (ConfirmDelete Pod pods_to_delete))
                     (\<lambda>answer.
                        if lower answer = ''y''
                        then for_each pods_to_delete (delete_namespaced CoreV1Api Pod)
                        else ret ())
              else ret ())"

subsection \<open>\<^verbatim>\<open>build_and_push_images\<close>\<close>

text \<open>The first pass over the lines of \<^verbatim>\<open>docker images\<close>: the dict
  \<^verbatim>\<open>images_repo_digests\<close> keeps the first digest listed for a repository of the
  registry. Unpacking a line that does not split in two raises \<^verbatim>\<open>ValueError\<close>.\<close>

fun snapshot_loop ::
  "string list \<Rightarrow> (string \<rightharpoonup> string) \<Rightarrow> error + (string \<rightharpoonup> string)" where
  "snapshot_loop [] images_repo_digests = Inr images_repo_digests"
| "snapshot_loop (line # rest) images_repo_digests =
     (if str_replace line ''__:__'' [] = [] then snapshot_loop rest images_repo_digests
      else case str_split line ''__:__'' of
             [repository, digest] \<Rightarrow>
               if startswith repository REGISTRY
               then (if images_repo_digests repository = None
                     then snapshot_loop rest (images_repo_digests(repository \<mapsto> digest))
                     else snapshot_loop rest images_repo_digests)
               else snapshot_loop rest images_repo_digests
           | _ \<Rightarrow> Inl ValueError)"

text \<open>The second pass, after the pushes: every line is compared with the digest saved
  by the first pass.\<close>

fun updated_loop ::
  "string list \<Rightarrow> (string \<rightharpoonup> string) \<Rightarrow> string list \<Rightarrow> error + string list" where
  "updated_loop [] images_repo_digests updated_images = Inr updated_images"
| "updated_loop (line # rest) images_repo_digests updated_images =
     (if str_replace line ''__:__'' [] = [] then updated_loop rest images_repo_digests updated_images
      else case str_split line ''__:__'' of
             [repository, digest] \<Rightarrow>
               if startswith repository REGISTRY
               then (case images_repo_digests repository of
                       Some saved \<Rightarrow>
                         if saved \<noteq> digest \<and> digest \<noteq> [] \<and> saved \<noteq> []
                         then updated_loop rest images_repo_digests (updated_images @ [repository])
                         else updated_loop rest images_repo_digests updated_images
                     | None \<Rightarrow> updated_loop rest images_repo_digests updated_images)
               else updated_loop rest images_repo_digests updated_images
           | _ \<Rightarrow> Inl ValueError)"

text \<open>The loop that collects the build and push commands. \<^verbatim>\<open>images_repositories\<close> is
  assigned only when \<^verbatim>\<open>ignore_existing\<close> is false; \<open>None\<close> is the unbound local, and
  reading it raises \<^verbatim>\<open>UnboundLocalError\<close>.\<close>

fun commands_loop ::
  "challenge list \<Rightarrow> string list option \<Rightarrow> string list \<Rightarrow> string list
     \<Rightarrow> (string list \<times> string list) prog" where
  "commands_loop [] images_repositories build_commands push_commands w =
     (Inr (build_commands, push_commands), w)"
| "commands_loop (challenge # rest) images_repositories build_commands push_commands w =
     (if \<not> path_exists (path challenge @ ''/Dockerfile'') w
      then commands_loop rest images_repositories build_commands push_commands w
      else let tag = REGISTRY @ challenge_id challenge in
        case images_repositories of
          None \<Rightarrow> (Inl UnboundLocalError, w)
        | Some repos \<Rightarrow>
            if tag \<in> set repos
            then commands_loop rest images_repositories build_commands push_commands w
            else commands_loop rest images_repositories
                   (build_commands @ [''sudo docker build -t '' @ tag @ '' '' @ path challenge])
                   (push_commands @ [''sudo docker push '' @ tag]) w)"

definition build_and_push_images :: "challenge list \<Rightarrow> bool \<Rightarrow> unit prog" where
  "build_and_push_images challenges ignore_existing =
     bind docker_images
       (\<lambda>images.
          case snapshot_loop (str_split images [CHR 0x0A]) Map.empty of
            Inl e \<Rightarrow> raise e
          | Inr images_repo_digests \<Rightarrow>
              bind (commands_loop challenges (if \<not> ignore_existing then Some [] else None) [] [])
                (\<lambda>(build_commands, push_commands).
                   bind (pool_map build_commands)
                     (\<lambda>_. bind (pool_map push_commands)
                       (\<lambda>_. bind docker_images
                         (\<lambda>images.
                            case updated_loop (str_split images [CHR 0x0A]) images_repo_digests [] of
                              Inl e \<Rightarrow> raise e
                            | Inr updated_images \<Rightarrow>
                                if length updated_images > 0 then update_pods updated_images
                                else ret ())))))"

subsection \<open>\<^verbatim>\<open>clean_cluster\<close>\<close>

definition clean_cluster :: "unit prog" where
  "clean_cluster =
     bind (list_namespaced CoreV1Api Service (Some MANAGED_BY))
       (\<lambda>resources.
          bind (for_each resources (\<lambda>resource.
                  delete_namespaced CoreV1Api Service (metadata_name resource)))
            (\<lambda>_. bind (list_namespaced AppsV1Api Deployment (Some MANAGED_BY))
              (\<lambda>resources.
                 for_each resources (\<lambda>resource.
                   delete_namespaced AppsV1Api Deployment (metadata_name resource)))))"

subsection \<open>\<^verbatim>\<open>main\<close>\<close>

definition deployment_manifest :: "challenge \<Rightarrow> resource" where
  "deployment_manifest challenge =
     \<lparr> apiVersion = ''apps/v1'',
       kind = ''Deployment'',
       metadata_name = challenge_id challenge,
       metadata_namespace = ''ethical-hacking'',
       metadata_labels = [],
       spec = DeploymentSpec 1
                [(''challenge'', challenge_id challenge)]
                [(''securitylab.disi.unitn.it/managed-by'', ''true''),
                 (''challenge'', challenge_id challenge)]
                [\<lparr> container_name = challenge_id challenge,
                    image = REGISTRY @ challenge_id challenge,
                    containerPorts = [DEFAULT_INTERNAL_PORT] \<rparr>]
                ''Always'' \<rparr>"

definition hpa_manifest :: "challenge \<Rightarrow> resource" where
  "hpa_manifest challenge =
     \<lparr> apiVersion = ''autoscaling/v1'',
       kind = ''HorizontalPodAutoscaler'',
       metadata_name = challenge_id challenge,
       metadata_namespace = ''ethical-hacking'',
       metadata_labels = [(''securitylab.disi.unitn.it/managed-by'', ''true'')],
       spec = HorizontalPodAutoscalerSpec
                (''apps/v1'', ''Deployment'', challenge_id challenge) 1 10 80 \<rparr>"

definition service_manifest :: "challenge \<Rightarrow> resource" where
  "service_manifest challenge =
     \<lparr> apiVersion = ''v1'',
       kind = ''Service'',
       metadata_name = challenge_id challenge,
       metadata_namespace = ''ethical-hacking'',
       metadata_labels = [(''securitylab.disi.unitn.it/managed-by'', ''true'')],
       spec = ServiceSpec ''LoadBalancer'' ''Local''
                [(''challenge'', challenge_id challenge)]
                [\<lparr> protocol = ''TCP'',
                    service_port = port challenge,
                    targetPort = DEFAULT_INTERNAL_PORT,
                    nodePort = port challenge \<rparr>] \<rparr>"

text \<open>\<^verbatim>\<open>try: create_or_update_resource(r); deployed.append(challenge)\<close> with
  \<^verbatim>\<open>except Exception\<close> printing the failure.\<close>

definition try_deploy :: "resource \<Rightarrow> challenge \<Rightarrow> challenge list \<Rightarrow> challenge list prog" where
  "try_deploy r challenge deployed =
     try_except
       (bind (create_or_update_resource r) (\<lambda>_. ret (deployed @ [challenge])))
       (\<lambda>e. ret deployed)"

text \<open>The body of the loop over the challenges, on the three lists
  \<^verbatim>\<open>deployed_deployments\<close>, \<^verbatim>\<open>deployed_hpas\<close> and \<^verbatim>\<open>deployed_services\<close>. The
  autoscaler block is guarded by the source's literal \<^verbatim>\<open>1 + 1 == 1\<close>.\<close>

definition deploy_challenge ::
  "challenge \<Rightarrow> challenge list \<times> challenge list \<times> challenge list
     \<Rightarrow> (challenge list \<times> challenge list \<times> challenge list) prog" where
  "deploy_challenge challenge = (\<lambda>(deployed_deployments, deployed_hpas, deployed_services).
     bind (try_deploy (deployment_manifest challenge) challenge deployed_deployments)
       (\<lambda>deployed_deployments.
          bind (if (1::int) + 1 = 1
                then try_deploy (hpa_manifest challenge) challenge deployed_hpas
                else ret deployed_hpas)
            (\<lambda>deployed_hpas.
               bind (try_deploy (service_manifest challenge) challenge deployed_services)
                 (\<lambda>deployed_services.
                    ret (deployed_deployments, deployed_hpas, deployed_services)))))"

fun deploy_loop ::
  "challenge list \<Rightarrow> challenge list \<times> challenge list \<times> challenge list
     \<Rightarrow> (challenge list \<times> challenge list \<times> challenge list) prog" where
  "deploy_loop [] deployed w = (Inr deployed, w)"
| "deploy_loop (challenge # rest) deployed w =
     (if \<not> path_exists (path challenge @ ''/Dockerfile'') w
      then deploy_loop rest deployed w
      else case deploy_challenge challenge deployed w of
             (Inl e, w') \<Rightarrow> (Inl e, w')
           | (Inr deployed', w') \<Rightarrow> deploy_loop rest deployed' w')"

text \<open>The names of the listed objects that are not ids of the deployed challenges.\<close>

definition not_deployed :: "resource list \<Rightarrow> challenge list \<Rightarrow> string list" where
  "not_deployed items deployed =
     map metadata_name
       (filter (\<lambda>item. metadata_name item \<notin> set (map challenge_id deployed)) items)"

definition delete_deployments :: "challenge list \<Rightarrow> unit prog" where
  "delete_deployments deployed_deployments =
     bind (list_namespaced AppsV1Api Deployment None)
       (\<lambda>deployments.
          let deployments_to_delete = not_deployed deployments deployed_deployments in
          if length deployments_to_delete > 0
          then bind (input (ConfirmDelete Deployment deployments_to_delete))
                 (\<lambda>answer.
                    if lower answer = ''y''
                    then for_each deployments_to_delete (delete_namespaced AppsV1Api Deployment)
                    else ret ())
          else ret ())"

definition delete_services :: "challenge list \<Rightarrow> unit prog" where
  "delete_services deployed_services =
     bind (list_namespaced CoreV1Api Service None)
       (\<lambda>services.
          let services_to_delete = not_deployed services deployed_services in
          if length services_to_delete > 0
          then bind (input (ConfirmDelete Service services_to_delete))
                 (\<lambda>answer.
                    if lower answer = ''y''
                    then for_each services_to_delete (delete_namespaced CoreV1Api Service)
                    else ret ())
          else ret ())"

text \<open>The autoscalers are listed through \<^verbatim>\<open>autoscaling_v1\<close> and deleted through
  \<^verbatim>\<open>core_v1\<close>, as the source writes it.\<close>

definition delete_hpas :: "challenge list \<Rightarrow> unit prog" where
  "delete_hpas deployed_hpas =
     bind (list_namespaced AutoscalingV1Api HorizontalPodAutoscaler None)
       (\<lambda>hpas.
          let hpas_to_delete = not_deployed hpas deployed_hpas in
          if length hpas_to_delete > 0
          then bind (input (ConfirmDelete HorizontalPodAutoscaler hpas_to_delete))
                 (\<lambda>answer.
                    if lower answer = ''y''
                    then for_each hpas_to_delete
                           (delete_namespaced CoreV1Api HorizontalPodAutoscaler)
                    else ret ())
          else ret ())"

text \<open>\<^verbatim>\<open>main\<close>: the first prompt returns on \<^verbatim>\<open>KeyboardInterrupt\<close>; then the image
  build, the loop over the challenges, and the three deletion passes.\<close>

definition main :: "challenge list \<Rightarrow> bool \<Rightarrow> bool \<Rightarrow> unit prog" where
  "main challenges build_images ignore_existing w =
     (case input PressEnter w of
        (Inl e, w1) \<Rightarrow> if e = KeyboardInterrupt then (Inr (), w1) else (Inl e, w1)
      | (Inr _, w1) \<Rightarrow>
          bind (if build_images then build_and_push_images challenges ignore_existing
                else ret ())
            (\<lambda>_. bind (deploy_loop challenges ([], [], []))
              (\<lambda>(deployed_deployments, deployed_hpas, deployed_services).
                 bind (delete_deployments deployed_deployments)
                   (\<lambda>_. bind (delete_services deployed_services)
                     (\<lambda>_. delete_hpas deployed_hpas)))) w1)"

section \<open>Properties of runs\<close>

text \<open>The events a program adds to the trace, and three notions used to reason about
  the programs piece by piece: every added event satisfies a predicate; a projection of
  the world is left as it was; the phases of the added events are in order.\<close>

definition events :: "'a prog \<Rightarrow> world \<Rightarrow> event list" where
  "events m w = drop (length (trace w)) (trace (snd (m w)))"

definition emits :: "(event \<Rightarrow> bool) \<Rightarrow> 'a prog \<Rightarrow> bool" where
  "emits P m = (\<forall>w. \<exists>t. trace (snd (m w)) = trace w @ t \<and> list_all P t)"

definition keeps :: "(world \<Rightarrow> 'x) \<Rightarrow> 'a prog \<Rightarrow> bool" where
  "keeps f m = (\<forall>w. f (snd (m w)) = f w)"

definition phased :: "(event \<Rightarrow> nat option) \<Rightarrow> nat \<Rightarrow> nat \<Rightarrow> 'a prog \<Rightarrow> bool" where
  "phased ph lo hi m =
     (\<forall>w. \<exists>t. trace (snd (m w)) = trace w @ t \<and> sorted (List.map_filter ph t) \<and>
        (\<forall>x\<in>set (List.map_filter ph t). lo \<le> x \<and> x \<le> hi))"

text \<open>A projection of the world that logging does not touch.\<close>

definition untraced :: "(world \<Rightarrow> 'x) \<Rightarrow> bool" where
  "untraced f = (\<forall>e w. f (log e w) = f w)"

text \<open>The three classes of mutating calls: writing a manifest, deleting a Deployment,
  Service or Autoscaler, and evicting a pod. \<open>all_before P Q\<close> says that no \<open>P\<close>
  event comes after a \<open>Q\<close> event.\<close>

definition is_create_or_update :: "event \<Rightarrow> bool" where
  "is_create_or_update e =
     (case e of Call cl k (Create b) \<Rightarrow> True | Call cl k (Replace n b) \<Rightarrow> True | _ \<Rightarrow> False)"

definition is_deletion :: "event \<Rightarrow> bool" where
  "is_deletion e = (case e of Call cl k (Delete n) \<Rightarrow> k \<noteq> Pod | _ \<Rightarrow> False)"

definition is_restart :: "event \<Rightarrow> bool" where
  "is_restart e = (case e of Call cl k (Delete n) \<Rightarrow> k = Pod | _ \<Rightarrow> False)"

fun all_before :: "(event \<Rightarrow> bool) \<Rightarrow> (event \<Rightarrow> bool) \<Rightarrow> event list \<Rightarrow> bool" where
  "all_before P Q [] = True"
| "all_before P Q (e # es) = ((if Q e then list_all (\<lambda>x. \<not> P x) es else True) \<and> all_before P Q es)"

text \<open>The order in which \<^verbatim>\<open>main\<close> reaches the three classes.\<close>

definition phase :: "event \<Rightarrow> nat option" where
  "phase e = (if is_restart e then Some 0 else if is_create_or_update e then Some 1
              else if is_deletion e then Some 2 else None)"

text \<open>\<^verbatim>\<open>main\<close> after its first prompt.\<close>

definition main_body :: "challenge list \<Rightarrow> bool \<Rightarrow> bool \<Rightarrow> unit prog" where
  "main_body challenges build_images ignore_existing =
          bind (if build_images then build_and_push_images challenges ignore_existing
                else ret ())
            (\<lambda>_. bind (deploy_loop challenges ([], [], []))
              (\<lambda>(deployed_deployments, deployed_hpas, deployed_services).
                 bind (delete_deployments deployed_deployments)
                   (\<lambda>_. bind (delete_services deployed_services)
                     (\<lambda>_. delete_hpas deployed_hpas))))"

text \<open>Deleting an Autoscaler, through whichever client; and a program that ends with
  error \<open>E\<close> whenever it has added an event of class \<open>B\<close>.\<close>

definition is_hpa_delete :: "event \<Rightarrow> bool" where
  "is_hpa_delete e =
     (case e of Call cl k (Delete n) \<Rightarrow> k = HorizontalPodAutoscaler | _ \<Rightarrow> False)"

definition raises_after :: "(event \<Rightarrow> bool) \<Rightarrow> error \<Rightarrow> 'a prog \<Rightarrow> bool" where
  "raises_after B E m =
     (\<forall>w. \<exists>t. trace (snd (m w)) = trace w @ t \<and> (list_ex B t \<longrightarrow> fst (m w) = Inl E))"

text \<open>Every event \<^verbatim>\<open>main\<close> can add.\<close>

definition main_event :: "event \<Rightarrow> bool" where
  "main_event e =
     (case e of
        Input p \<Rightarrow> True
      | DockerImages \<Rightarrow> True
      | PoolMap cs \<Rightarrow> True
      | Call cl k (Read n) \<Rightarrow> (cl, k) = (AppsV1Api, Deployment) \<or> (cl, k) = (CoreV1Api, Service)
      | Call cl k (Replace n b) \<Rightarrow> (cl, k) = (AppsV1Api, Deployment) \<or> (cl, k) = (CoreV1Api, Service)
      | Call cl k (Create b) \<Rightarrow> (cl, k) = (AppsV1Api, Deployment) \<or> (cl, k) = (CoreV1Api, Service)
      | Call cl k (List s) \<Rightarrow> serves cl k
      | Call cl k (Delete n) \<Rightarrow> (cl, k) = (AppsV1Api, Deployment) \<or> cl = CoreV1Api)"

text \<open>The test \<^verbatim>\<open>update_pods\<close> applies to a pod: the image of its first container is
  one of the given images.\<close>

definition first_image_in :: "string list \<Rightarrow> resource \<Rightarrow> bool" where
  "first_image_in images pod =
     (case first_container_image pod of Inl e \<Rightarrow> False | Inr img \<Rightarrow> img \<in> set images)"

text \<open>What one \<^verbatim>\<open>create_or_update_*\<close> does when the client serves the kind: the
  manifest replaces the stored object of its name, or is appended when there is none,
  provided the API server admits it; the calls it issues on the way. A challenge is
  deployed when it has a Dockerfile and its manifest is admitted.\<close>

definition upsert :: "resource \<Rightarrow> resource list \<Rightarrow> resource list" where
  "upsert r rs =
     (if lookup rs (metadata_name r) = None then rs @ [r]
      else replace_first (metadata_name r) r rs)"

definition cou_events :: "client \<Rightarrow> objkind \<Rightarrow> resource \<Rightarrow> world \<Rightarrow> event list" where
  "cou_events cl k r w =
     Call cl k (Read (metadata_name r)) #
     (if lookup (objects w k) (metadata_name r) = None then [Call cl k (Create r)]
      else if admission w r then [Call cl k (Replace (metadata_name r) r)]
      else [Call cl k (Replace (metadata_name r) r), Call cl k (Create r)])"

definition after_cou :: "client \<Rightarrow> objkind \<Rightarrow> resource \<Rightarrow> world \<Rightarrow> world" where
  "after_cou cl k r w =
     w\<lparr>trace := trace w @ cou_events cl k r w,
       objects := if admission w r then (objects w)(k := upsert r (objects w k)) else objects w\<rparr>"



text \<open>The challenges \<^verbatim>\<open>main\<close> does not skip; the read a call performs and the
  manifest a call submits; the calls on one kind.\<close>

definition with_dockerfile :: "world \<Rightarrow> challenge list \<Rightarrow> challenge list" where
  "with_dockerfile w challenges =
     filter (\<lambda>c. path_exists (path c @ ''/Dockerfile'') w) challenges"

definition read_of :: "event \<Rightarrow> (client \<times> objkind \<times> string) option" where
  "read_of e = (case e of Call cl k (Read n) \<Rightarrow> Some (cl, k, n) | _ \<Rightarrow> None)"

definition write_of :: "event \<Rightarrow> (client \<times> objkind \<times> resource) option" where
  "write_of e =
     (case e of Call cl k (Create b) \<Rightarrow> Some (cl, k, b)
              | Call cl k (Replace n b) \<Rightarrow> Some (cl, k, b)
              | _ \<Rightarrow> None)"

definition touches :: "objkind \<Rightarrow> event \<Rightarrow> bool" where
  "touches k e = (case e of Call cl k' r \<Rightarrow> k' = k | _ \<Rightarrow> False)"


definition in_place :: "world \<Rightarrow> challenge \<Rightarrow> bool" where
  "in_place w c =
     (admission w (deployment_manifest c) \<and> admission w (service_manifest c) \<and>
      lookup (objects w Deployment) (challenge_id c) = Some (deployment_manifest c) \<and>
      lookup (objects w Service) (challenge_id c) = Some (service_manifest c))"

text \<open>The world after the operator has answered the first prompt with a line; a run
  reaches the loop over the challenges when the operator does so and the image build, if
  it is asked for, returns normally.\<close>

definition after_enter :: "world \<Rightarrow> world" where
  "after_enter w = (log (Input PressEnter) w)\<lparr>stdin := tl (stdin w)\<rparr>"

definition reaches_loop :: "challenge list \<Rightarrow> bool \<Rightarrow> bool \<Rightarrow> world \<Rightarrow> bool" where
  "reaches_loop challenges build_images ignore_existing w =
     (case stdin w of
        Line s # rest \<Rightarrow>
          (if build_images
           then fst (build_and_push_images challenges ignore_existing (after_enter w)) = Inr ()
           else True)
      | _ \<Rightarrow> False)"





section \<open>Example worlds\<close>

text \<open>One challenge with a Dockerfile; a cluster with a stale Deployment and a managed pod
  of the challenge; a rebuild that changes the digest of the challenge's image.\<close>

definition web :: challenge where
  "web = \<lparr> name = ''01-ctf'', path = ''/srv/web'', port = 10101, category = ''web'',
           subcategory = ''basic'' \<rparr>"

definition old_99 :: resource where
  "old_99 = \<lparr> apiVersion = ''apps/v1'', kind = ''Deployment'', metadata_name = ''old-99'',
       metadata_namespace = ''ethical-hacking'',
       metadata_labels = [(''securitylab.disi.unitn.it/managed-by'', ''true'')],
       spec = DeploymentSpec 1 [] [] [] ''Always'' \<rparr>"

definition web_pod :: resource where
  "web_pod = \<lparr> apiVersion = ''v1'', kind = ''Pod'', metadata_name = ''web-01-ctf-5d9c'',
       metadata_namespace = ''ethical-hacking'',
       metadata_labels = [(''securitylab.disi.unitn.it/managed-by'', ''true''),
                          (''challenge'', ''web-01-ctf'')],
       spec = PodSpec [\<lparr> container_name = ''web-01-ctf'',
                          image = ''registry.local:5000/web-01-ctf'',
                          containerPorts = [5000] \<rparr>] \<rparr>"

definition rebuild_world :: world where
  "rebuild_world =
     \<lparr> objects = (\<lambda>k. if k = Deployment then [old_99] else if k = Pod then [web_pod] else []),
       admission = (\<lambda>_. True),
       files = [''/srv/web/Dockerfile''],
       stdin = [Line [], Line ''y'', Line ''y''],
       docker_stdout = [''registry.local:5000/web-01-ctf__:__sha:AAA'' @ [CHR 0x0A],
                        ''registry.local:5000/web-01-ctf__:__sha:BBB'' @ [CHR 0x0A]],
       trace = [] \<rparr>"

text \<open>Two challenges, one of whose images is already in the registry.\<close>

definition pwn :: challenge where
  "pwn = \<lparr> name = ''02-rop'', path = ''/srv/pwn'', port = 20102, category = ''pwn'',
           subcategory = ''stack'' \<rparr>"

definition registry_world :: world where
  "registry_world =
     \<lparr> objects = (\<lambda>k. []),
       admission = (\<lambda>_. True),
       files = [''/srv/web/Dockerfile'', ''/srv/pwn/Dockerfile''],
       stdin = [Line []],
       docker_stdout = [''registry.local:5000/web-01-ctf__:__sha:AAA'' @ [CHR 0x0A],
                        ''registry.local:5000/web-01-ctf__:__sha:AAA'' @ [CHR 0x0A]],
       trace = [] \<rparr>"

text \<open>A registry that lists two digests for one repository, the newer first, as it does
  once an image has been pushed a second time; the listing is the same before the build
  and after the push.\<close>

definition two_digests :: string where
  "two_digests = ''registry.local:5000/web-01-ctf__:__sha:BBB'' @ [CHR 0x0A] @
                 ''registry.local:5000/web-01-ctf__:__sha:AAA'' @ [CHR 0x0A]"

definition unchanged_world :: world where
  "unchanged_world =
     \<lparr> objects = (\<lambda>k. if k = Pod then [web_pod] else []),
       admission = (\<lambda>_. True),
       files = [''/srv/web/Dockerfile''],
       stdin = [Line ''y''],
       docker_stdout = [two_digests, two_digests],
       trace = [] \<rparr>"

text \<open>A cluster that holds an Autoscaler, and an operator who approves its deletion.\<close>

definition hpa_world :: world where
  "hpa_world =
     \<lparr> objects = (\<lambda>k. if k = HorizontalPodAutoscaler then [hpa_manifest web] else []),
       admission = (\<lambda>_. True),
       files = [''/srv/web/Dockerfile''],
       stdin = [Line [], Line ''Y''],
       docker_stdout = [],
       trace = [] \<rparr>"

text \<open>A managed pod that runs the challenge's image in its second container, next to a
  pod that runs it in its first.\<close>

definition sidecar_pod :: resource where
  "sidecar_pod = \<lparr> apiVersion = ''v1'', kind = ''Pod'', metadata_name = ''gateway-7f2a'',
       metadata_namespace = ''ethical-hacking'',
       metadata_labels = [(''securitylab.disi.unitn.it/managed-by'', ''true'')],
       spec = PodSpec [\<lparr> container_name = ''proxy'',
                          image = ''registry.local:5000/proxy'',
                          containerPorts = [8080] \<rparr>,
                       \<lparr> container_name = ''web-01-ctf'',
                          image = ''registry.local:5000/web-01-ctf'',
                          containerPorts = [5000] \<rparr>] \<rparr>"

definition sidecar_world :: world where
  "sidecar_world =
     \<lparr> objects = (\<lambda>k. if k = Pod then [sidecar_pod, web_pod] else []),
       admission = (\<lambda>_. True),
       files = [''/srv/web/Dockerfile''],
       stdin = [Line ''y''],
       docker_stdout = [],
       trace = [] \<rparr>"

text \<open>A cluster with objects of every kind that no challenge asks for: a Deployment made
  by hand, without the label; a labelled Deployment and Service left by a removed
  challenge; an Autoscaler; a pod.\<close>

definition handmade :: resource where
  "handmade = \<lparr> apiVersion = ''apps/v1'', kind = ''Deployment'', metadata_name = ''handmade'',
       metadata_namespace = ''ethical-hacking'', metadata_labels = [],
       spec = DeploymentSpec 1 [] [] [] ''Always'' \<rparr>"

definition old_service :: resource where
  "old_service = \<lparr> apiVersion = ''v1'', kind = ''Service'', metadata_name = ''old-99'',
       metadata_namespace = ''ethical-hacking'',
       metadata_labels = [(''securitylab.disi.unitn.it/managed-by'', ''true'')],
       spec = ServiceSpec ''LoadBalancer'' ''Local'' [(''challenge'', ''old-99'')] [] \<rparr>"

definition stale_world :: world where
  "stale_world =
     \<lparr> objects = (\<lambda>k. if k = Deployment then [handmade, old_99]
                      else if k = Service then [old_service, service_manifest web]
                      else if k = HorizontalPodAutoscaler then [hpa_manifest web]
                      else [web_pod]),
       admission = (\<lambda>_. True),
       files = [''/srv/web/Dockerfile''],
       stdin = [Line ''Y''],
       docker_stdout = [],
       trace = [] \<rparr>"


text \<open>An empty cluster and one challenge to deploy.\<close>

definition fresh_world :: world where
  "fresh_world =
     \<lparr> objects = (\<lambda>k. []),
       admission = (\<lambda>_. True),
       files = [''/srv/web/Dockerfile''],
       stdin = [Line []],
       docker_stdout = [],
       trace = [] \<rparr>"

text \<open>\<^const>\<open>stale_world\<close> with an image build that changes the digest of the
  challenge's image, and an operator who approves the restart and declines the three
  deletions.\<close>

definition busy_world :: world where
  "busy_world =
     stale_world\<lparr>stdin := [Line [], Line ''y'', Line ''n'', Line ''n'', Line ''n''],
                 docker_stdout := [''registry.local:5000/web-01-ctf__:__sha:AAA'' @ [CHR 0x0A],
                                   ''registry.local:5000/web-01-ctf__:__sha:BBB'' @ [CHR 0x0A]]\<rparr>"



text \<open>A cluster with two Autoscalers and an operator who approves their deletion.\<close>

definition two_hpa_world :: world where
  "two_hpa_world =
     \<lparr> objects = (\<lambda>k. if k = HorizontalPodAutoscaler then [hpa_manifest web, hpa_manifest pwn]
                      else []),
       admission = (\<lambda>_. True),
       files = [''/srv/web/Dockerfile''],
       stdin = [Line [], Line ''y''],
       docker_stdout = [],
       trace = [] \<rparr>"

section \<open>Reasoning about the programs\<close>

subsection \<open>Fields after logging and storing\<close>

lemma log_fields [simp]:
  "trace (log e w) = trace w @ [e]" "objects (log e w) = objects w"
  "admission (log e w) = admission w" "files (log e w) = files w"
  "stdin (log e w) = stdin w" "docker_stdout (log e w) = docker_stdout w"
  by (simp_all add: log_def)

lemma set_objects_fields [simp]:
  "trace (set_objects k rs w) = trace w"
  "objects (set_objects k rs w) = (objects w)(k := rs)"
  "admission (set_objects k rs w) = admission w" "files (set_objects k rs w) = files w"
  "stdin (set_objects k rs w) = stdin w" "docker_stdout (set_objects k rs w) = docker_stdout w"
  by (simp_all add: set_objects_def)

subsection \<open>The events a program adds\<close>

lemma emitsD: "emits P m \<Longrightarrow> \<exists>t. trace (snd (m w)) = trace w @ t \<and> list_all P t"
  by (simp add: emits_def)

lemma emits_events: "emits P m \<Longrightarrow> trace (snd (m w)) = trace w @ events m w \<and> list_all P (events m w)"
  using emitsD[of P m w] by (auto simp: events_def)

lemma emits_ret [intro!, simp]: "emits P (ret a)"
  by (simp add: emits_def ret_def)

lemma emits_raise [intro!, simp]: "emits P (raise e)"
  by (simp add: emits_def raise_def)

lemma emits_bind [intro!]:
  assumes "emits P m" and "\<And>a. emits P (f a)"
  shows "emits P (bind m f)"
  unfolding emits_def
proof
  fix w
  obtain r w1 where mw: "m w = (r, w1)" by (cases "m w")
  from emitsD[OF assms(1), of w] mw obtain t1 where t1: "trace w1 = trace w @ t1" "list_all P t1"
    by auto
  show "\<exists>t. trace (snd (bind m f w)) = trace w @ t \<and> list_all P t"
  proof (cases r)
    case (Inl e)
    with mw t1 show ?thesis by (auto simp: bind_def)
  next
    case (Inr a)
    from emitsD[OF assms(2), of a w1] obtain t2 where "trace (snd (f a w1)) = trace w1 @ t2" "list_all P t2"
      by auto
    with Inr mw t1 show ?thesis by (auto simp: bind_def)
  qed
qed

lemma emits_try_except [intro!]:
  assumes "emits P m" and "\<And>e. emits P (h e)"
  shows "emits P (try_except m h)"
  unfolding emits_def
proof
  fix w
  obtain r w1 where mw: "m w = (r, w1)" by (cases "m w")
  from emitsD[OF assms(1), of w] mw obtain t1 where t1: "trace w1 = trace w @ t1" "list_all P t1"
    by auto
  show "\<exists>t. trace (snd (try_except m h w)) = trace w @ t \<and> list_all P t"
  proof (cases r)
    case (Inr a)
    with mw t1 show ?thesis by (auto simp: try_except_def)
  next
    case (Inl e)
    from emitsD[OF assms(2), of e w1] obtain t2 where "trace (snd (h e w1)) = trace w1 @ t2" "list_all P t2"
      by auto
    with Inl mw t1 show ?thesis by (auto simp: try_except_def)
  qed
qed

lemma emits_if_world:
  assumes "emits P m1" and "emits P m2"
  shows "emits P (\<lambda>w. if b w then m1 w else m2 w)"
  using assms by (auto simp: emits_def)

lemma emits_if [intro!]: "emits P m1 \<Longrightarrow> emits P m2 \<Longrightarrow> emits P (if b then m1 else m2)"
  by simp

lemma emits_for_each [intro!]:
  assumes "\<And>x. emits P (f x)"
  shows "emits P (for_each xs f)"
proof (induction xs)
  case Nil
  show ?case by (simp add: emits_def)
next
  case (Cons x xs)
  have "for_each (x # xs) f = bind (f x) (\<lambda>_. for_each xs f)"
    by (rule ext) (simp add: bind_def split: prod.splits sum.splits)
  with Cons assms show ?case by (auto intro: emits_bind)
qed

lemma emits_mono: "emits P m \<Longrightarrow> (\<And>e. P e \<Longrightarrow> Q e) \<Longrightarrow> emits Q m"
  unfolding emits_def by (metis list_all_iff[unfolded Ball_def] list.pred_mono_strong)

lemma emits_input [intro!]: "P (Input p) \<Longrightarrow> emits P (input p)"
  by (auto simp: emits_def input_def Let_def split: list.splits reply.splits)

lemma emits_docker_images [intro!]: "P DockerImages \<Longrightarrow> emits P docker_images"
  by (auto simp: emits_def docker_images_def Let_def split: list.splits)

lemma emits_pool_map [intro!]: "P (PoolMap cs) \<Longrightarrow> emits P (pool_map cs)"
  by (auto simp: emits_def pool_map_def)

lemma emits_read [intro!]: "P (Call cl k (Read n)) \<Longrightarrow> emits P (read_namespaced cl k n)"
  by (auto simp: emits_def read_namespaced_def Let_def split: option.splits)

lemma emits_replace [intro!]: "P (Call cl k (Replace n b)) \<Longrightarrow> emits P (replace_namespaced cl k n b)"
  by (auto simp: emits_def replace_namespaced_def Let_def)

lemma emits_create [intro!]: "P (Call cl k (Create b)) \<Longrightarrow> emits P (create_namespaced cl k b)"
  by (auto simp: emits_def create_namespaced_def Let_def)

lemma emits_list [intro!]: "P (Call cl k (List s)) \<Longrightarrow> emits P (list_namespaced cl k s)"
  by (auto simp: emits_def list_namespaced_def Let_def)

lemma emits_delete [intro!]: "P (Call cl k (Delete n)) \<Longrightarrow> emits P (delete_namespaced cl k n)"
  by (auto simp: emits_def delete_namespaced_def Let_def)

subsection \<open>What a program leaves as it was\<close>

lemma keepsD: "keeps f m \<Longrightarrow> f (snd (m w)) = f w"
  by (simp add: keeps_def)


lemma keeps_ret [intro!, simp]: "keeps f (ret a)"
  by (simp add: keeps_def ret_def)

lemma keeps_raise [intro!, simp]: "keeps f (raise e)"
  by (simp add: keeps_def raise_def)

lemma keeps_bind [intro!]:
  assumes "keeps f m" and "\<And>a. keeps f (g a)"
  shows "keeps f (bind m g)"
  unfolding keeps_def
proof
  fix w
  obtain r w1 where mw: "m w = (r, w1)" by (cases "m w")
  with keepsD[OF assms(1), of w] have "f w1 = f w" by simp
  with mw keepsD[OF assms(2)] show "f (snd (bind m g w)) = f w"
    by (cases r) (auto simp: bind_def)
qed

lemma keeps_try_except [intro!]:
  assumes "keeps f m" and "\<And>e. keeps f (h e)"
  shows "keeps f (try_except m h)"
  unfolding keeps_def
proof
  fix w
  obtain r w1 where mw: "m w = (r, w1)" by (cases "m w")
  with keepsD[OF assms(1), of w] have "f w1 = f w" by simp
  with mw keepsD[OF assms(2)] show "f (snd (try_except m h w)) = f w"
    by (cases r) (auto simp: try_except_def)
qed

lemma keeps_if [intro!]: "keeps f m1 \<Longrightarrow> keeps f m2 \<Longrightarrow> keeps f (if b then m1 else m2)"
  by simp

lemma keeps_if_world:
  "keeps f m1 \<Longrightarrow> keeps f m2 \<Longrightarrow> keeps f (\<lambda>w. if b w then m1 w else m2 w)"
  by (auto simp: keeps_def)

lemma for_each_Cons_bind: "for_each (x # xs) f = bind (f x) (\<lambda>_. for_each xs f)"
  by (rule ext) (simp add: bind_def split: prod.splits sum.splits)

lemma keeps_for_each [intro!]:
  assumes "\<And>x. keeps f (g x)"
  shows "keeps f (for_each xs g)"
proof (induction xs)
  case Nil
  show ?case by (simp add: keeps_def)
next
  case (Cons x xs)
  with assms show ?case unfolding for_each_Cons_bind by (auto intro: keeps_bind)
qed

lemma untraced_fields [simp]:
  "untraced files" "untraced admission" "untraced objects" "untraced (\<lambda>w. objects w k)"
  "untraced stdin" "untraced docker_stdout"
  by (simp_all add: untraced_def)

lemma keeps_input [intro!]:
  "untraced f \<Longrightarrow> (\<And>w s. f (w\<lparr>stdin := s\<rparr>) = f w) \<Longrightarrow> keeps f (input p)"
  by (auto simp: keeps_def input_def Let_def untraced_def split: list.splits reply.splits)

lemma keeps_docker_images [intro!]:
  "untraced f \<Longrightarrow> (\<And>w s. f (w\<lparr>docker_stdout := s\<rparr>) = f w) \<Longrightarrow> keeps f docker_images"
  by (auto simp: keeps_def docker_images_def Let_def untraced_def split: list.splits)

lemma keeps_pool_map [intro!]: "untraced f \<Longrightarrow> keeps f (pool_map cs)"
  by (auto simp: keeps_def pool_map_def untraced_def)

lemma keeps_read [intro!]: "untraced f \<Longrightarrow> keeps f (read_namespaced cl k n)"
  by (auto simp: keeps_def read_namespaced_def Let_def untraced_def split: option.splits)

lemma keeps_list [intro!]: "untraced f \<Longrightarrow> keeps f (list_namespaced cl k s)"
  by (auto simp: keeps_def list_namespaced_def Let_def untraced_def)

lemma keeps_replace [intro!]:
  "untraced f \<Longrightarrow> (serves cl k \<Longrightarrow> (\<And>w rs. f (set_objects k rs w) = f w))
     \<Longrightarrow> keeps f (replace_namespaced cl k n b)"
  by (auto simp: keeps_def replace_namespaced_def Let_def untraced_def)

lemma keeps_create [intro!]:
  "untraced f \<Longrightarrow> (serves cl k \<Longrightarrow> (\<And>w rs. f (set_objects k rs w) = f w))
     \<Longrightarrow> keeps f (create_namespaced cl k b)"
  by (auto simp: keeps_def create_namespaced_def Let_def untraced_def)

lemma keeps_delete [intro!]:
  "untraced f \<Longrightarrow> (serves cl k \<Longrightarrow> (\<And>w rs. f (set_objects k rs w) = f w))
     \<Longrightarrow> keeps f (delete_namespaced cl k n)"
  by (auto simp: keeps_def delete_namespaced_def Let_def untraced_def)

subsection \<open>Loops and case distinctions\<close>

lemma deploy_loop_Cons:
  "deploy_loop (c # rest) deployed =
     (\<lambda>w. if \<not> path_exists (path c @ ''/Dockerfile'') w then deploy_loop rest deployed w
          else bind (deploy_challenge c deployed) (deploy_loop rest) w)"
  by (rule ext) (simp add: bind_def split: prod.splits sum.splits)

lemma commands_loop_keeps: "keeps f (commands_loop cs ir bc pc)"
proof (induction cs arbitrary: bc pc)
  case Nil
  show ?case by (simp add: keeps_def)
next
  case (Cons c cs)
  show ?case unfolding keeps_def
  proof
    fix w
    show "f (snd (commands_loop (c # cs) ir bc pc w)) = f w"
      using Cons[THEN keepsD] by (cases ir) (simp_all add: Let_def)
  qed
qed

lemma commands_loop_emits: "emits P (commands_loop cs ir bc pc)"
proof (induction cs arbitrary: bc pc)
  case Nil
  show ?case by (simp add: emits_def)
next
  case (Cons c cs)
  show ?case unfolding emits_def
  proof
    fix w
    show "\<exists>t. trace (snd (commands_loop (c # cs) ir bc pc w)) = trace w @ t \<and> list_all P t"
      using Cons[THEN emitsD] by (cases ir) (simp_all add: Let_def)
  qed
qed

lemma emits_case_sum [intro!]:
  "(\<And>e. emits P (f e)) \<Longrightarrow> (\<And>a. emits P (g a)) \<Longrightarrow> emits P (case x of Inl e \<Rightarrow> f e | Inr a \<Rightarrow> g a)"
  by (cases x) auto

lemma emits_case_prod [intro!]:
  "(\<And>a b. emits P (f a b)) \<Longrightarrow> emits P (case x of (a, b) \<Rightarrow> f a b)"
  by (cases x) auto

lemma emits_Let [intro!]: "emits P (f x) \<Longrightarrow> emits P (Let x f)"
  by simp

lemma keeps_case_sum [intro!]:
  "(\<And>e. keeps P (f e)) \<Longrightarrow> (\<And>a. keeps P (g a)) \<Longrightarrow> keeps P (case x of Inl e \<Rightarrow> f e | Inr a \<Rightarrow> g a)"
  by (cases x) auto

lemma keeps_case_prod [intro!]:
  "(\<And>a b. keeps P (f a b)) \<Longrightarrow> keeps P (case x of (a, b) \<Rightarrow> f a b)"
  by (cases x) auto

lemma keeps_Let [intro!]: "keeps P (f x) \<Longrightarrow> keeps P (Let x f)"
  by simp

subsection \<open>Phases in order\<close>

lemma map_filter_append: "List.map_filter f (xs @ ys) = List.map_filter f xs @ List.map_filter f ys"
  by (simp add: List.map_filter_def)

lemma phasedD:
  "phased ph lo hi m \<Longrightarrow> \<exists>t. trace (snd (m w)) = trace w @ t \<and> sorted (List.map_filter ph t) \<and>
        (\<forall>x\<in>set (List.map_filter ph t). lo \<le> x \<and> x \<le> hi)"
  by (simp add: phased_def)

lemma phased_bind:
  assumes "phased ph lo mid m" and "\<And>a. phased ph mid hi (f a)" and "lo \<le> mid" and "mid \<le> hi"
  shows "phased ph lo hi (bind m f)"
  unfolding phased_def
proof
  fix w
  obtain r w1 where mw: "m w = (r, w1)" by (cases "m w")
  from phasedD[OF assms(1), of w] mw obtain t1 where t1: "trace w1 = trace w @ t1"
    "sorted (List.map_filter ph t1)" "\<forall>x\<in>set (List.map_filter ph t1). lo \<le> x \<and> x \<le> mid"
    by auto
  show "\<exists>t. trace (snd (bind m f w)) = trace w @ t \<and> sorted (List.map_filter ph t) \<and>
        (\<forall>x\<in>set (List.map_filter ph t). lo \<le> x \<and> x \<le> hi)"
  proof (cases r)
    case (Inl e)
    with mw t1 assms(4) show ?thesis by (auto simp: bind_def intro!: exI[of _ t1])
  next
    case (Inr a)
    from phasedD[OF assms(2), of a w1] obtain t2 where t2: "trace (snd (f a w1)) = trace w1 @ t2"
      "sorted (List.map_filter ph t2)" "\<forall>x\<in>set (List.map_filter ph t2). mid \<le> x \<and> x \<le> hi"
      by auto
    have "sorted (List.map_filter ph (t1 @ t2))"
      using t1 t2 by (fastforce simp: map_filter_append sorted_append)
    moreover have "\<forall>x\<in>set (List.map_filter ph (t1 @ t2)). lo \<le> x \<and> x \<le> hi"
      using t1 t2 assms(3,4) by (fastforce simp: map_filter_append)
    ultimately show ?thesis using Inr mw t1 t2 by (auto simp: bind_def intro!: exI[of _ "t1 @ t2"])
  qed
qed

lemma sorted_const: "\<forall>x\<in>set xs. x = (i::nat) \<Longrightarrow> sorted xs"
  by (induction xs) auto

lemma emits_phased:
  assumes "emits (\<lambda>e. ph e = None \<or> ph e = Some i) m" and "lo \<le> i" and "i \<le> hi"
  shows "phased ph lo hi m"
  unfolding phased_def
proof
  fix w
  from emitsD[OF assms(1), of w] obtain t where t: "trace (snd (m w)) = trace w @ t"
    "list_all (\<lambda>e. ph e = None \<or> ph e = Some i) t" by auto
  have "\<forall>x\<in>set (List.map_filter ph t). x = i"
    using t(2) by (auto simp: List.map_filter_def list_all_iff)
  with t(1) assms(2,3) sorted_const[of "List.map_filter ph t" i]
  show "\<exists>t. trace (snd (m w)) = trace w @ t \<and> sorted (List.map_filter ph t) \<and>
        (\<forall>x\<in>set (List.map_filter ph t). lo \<le> x \<and> x \<le> hi)"
    by (intro exI[of _ t]) auto
qed

lemma phase_simps [simp]:
  "phase (Call cl k (Read n)) = None"
  "phase (Call cl k (List s)) = None"
  "phase (Call cl k (Create b)) = Some 1"
  "phase (Call cl k (Replace n b)) = Some 1"
  "phase (Call cl k (Delete n)) = (if k = Pod then Some 0 else Some 2)"
  "phase (Input p) = None" "phase DockerImages = None" "phase (PoolMap cs) = None"
  by (simp_all add: phase_def is_restart_def is_create_or_update_def is_deletion_def)

lemma update_pods_emits: "emits (\<lambda>e. phase e = None \<or> phase e = Some 0) (update_pods images)"
  unfolding update_pods_def by (intro emits_bind emits_list emits_case_sum emits_if emits_input emits_for_each emits_delete emits_ret emits_raise) simp_all

lemma build_emits:
  "emits (\<lambda>e. phase e = None \<or> phase e = Some 0) (build_and_push_images challenges ignore_existing)"
  unfolding build_and_push_images_def
  by (intro emits_bind emits_docker_images emits_case_sum emits_case_prod emits_if emits_pool_map
        emits_ret emits_raise commands_loop_emits update_pods_emits) simp_all

lemma create_or_update_resource_emits:
  "emits (\<lambda>e. phase e = None \<or> phase e = Some 1) (create_or_update_resource r)"
  unfolding create_or_update_resource_def create_or_update_service_def
    create_or_update_deployment_def create_or_update_horizontal_pod_autoscaler_def
  by (intro emits_if emits_try_except emits_bind emits_read emits_replace emits_create emits_raise) simp_all

lemma deploy_challenge_emits:
  "emits (\<lambda>e. phase e = None \<or> phase e = Some 1) (deploy_challenge c deployed)"
  unfolding deploy_challenge_def try_deploy_def
  by (cases deployed) (auto intro!: create_or_update_resource_emits simp del: One_nat_def)

lemma deploy_loop_emits:
  "emits (\<lambda>e. phase e = None \<or> phase e = Some 1) (deploy_loop cs deployed)"
proof (induction cs arbitrary: deployed)
  case Nil
  show ?case by (simp add: emits_def)
next
  case (Cons c cs)
  show ?case unfolding deploy_loop_Cons
    by (intro emits_if_world emits_bind Cons deploy_challenge_emits)
qed

lemma delete_deployments_emits:
  "emits (\<lambda>e. phase e = None \<or> phase e = Some 2) (delete_deployments d)"
  unfolding delete_deployments_def
  by (intro emits_bind emits_list emits_Let emits_if emits_input emits_for_each emits_delete emits_ret) simp_all

lemma delete_services_emits:
  "emits (\<lambda>e. phase e = None \<or> phase e = Some 2) (delete_services d)"
  unfolding delete_services_def
  by (intro emits_bind emits_list emits_Let emits_if emits_input emits_for_each emits_delete emits_ret) simp_all

lemma delete_hpas_emits:
  "emits (\<lambda>e. phase e = None \<or> phase e = Some 2) (delete_hpas d)"
  unfolding delete_hpas_def
  by (intro emits_bind emits_list emits_Let emits_if emits_input emits_for_each emits_delete emits_ret) simp_all

lemma main_body_phased: "phased phase 0 2 (main_body challenges build_images ignore_existing)"
  unfolding main_body_def
  apply (rule phased_bind[where mid = 0])
     apply (rule emits_phased[where i = 0])
       apply (intro emits_if emits_ret build_emits)
      apply simp
     apply simp
    apply (rule phased_bind[where mid = 1])
       apply (rule emits_phased[where i = 1])
         apply (rule deploy_loop_emits)
        apply simp
       apply simp
      apply (rule emits_phased[where i = 2])
        apply (auto intro!: emits_bind delete_deployments_emits delete_services_emits delete_hpas_emits)
  done

subsection \<open>\<^verbatim>\<open>main\<close> after its first prompt\<close>

lemma main_unfold:
  "main challenges build_images ignore_existing w =
     (case input PressEnter w of
        (Inl e, w1) \<Rightarrow> if e = KeyboardInterrupt then (Inr (), w1) else (Inl e, w1)
      | (Inr _, w1) \<Rightarrow> main_body challenges build_images ignore_existing w1)"
  unfolding main_def main_body_def by (rule refl)

lemma input_trace: "trace (snd (input p w)) = trace w @ [Input p]"
  by (simp add: input_def Let_def split: list.splits reply.splits)

lemma main_phased: "phased phase 0 2 (main challenges build_images ignore_existing)"
  unfolding phased_def
proof
  fix w
  obtain r w1 where i: "input PressEnter w = (r, w1)" by (cases "input PressEnter w")
  with input_trace[of PressEnter w] have t1: "trace w1 = trace w @ [Input PressEnter]" by simp
  show "\<exists>t. trace (snd (main challenges build_images ignore_existing w)) = trace w @ t \<and>
          sorted (List.map_filter phase t) \<and> (\<forall>x\<in>set (List.map_filter phase t). 0 \<le> x \<and> x \<le> 2)"
  proof (cases r)
    case (Inl e)
    with i t1 show ?thesis
      by (intro exI[of _ "[Input PressEnter]"]) (simp add: main_unfold List.map_filter_def)
  next
    case (Inr a)
    from phasedD[OF main_body_phased, of challenges build_images ignore_existing w1]
    obtain t where t: "trace (snd (main_body challenges build_images ignore_existing w1)) = trace w1 @ t"
      "sorted (List.map_filter phase t)" "\<forall>x\<in>set (List.map_filter phase t). 0 \<le> x \<and> x \<le> 2"
      by auto
    with Inr i t1 show ?thesis
      by (intro exI[of _ "Input PressEnter # t"]) (simp add: main_unfold List.map_filter_def)
  qed
qed

lemma sorted_phase_all_before:
  assumes "sorted (List.map_filter ph tr)"
    and "\<And>e. P e \<Longrightarrow> \<exists>i. ph e = Some i \<and> i \<le> (a::nat)"
    and "\<And>e. Q e \<Longrightarrow> \<exists>j. ph e = Some j \<and> a < j"
  shows "all_before P Q tr"
  using assms(1)
proof (induction tr)
  case Nil
  show ?case by simp
next
  case (Cons e es)
  have s: "sorted (List.map_filter ph es)"
    using Cons.prems by (cases "ph e") simp_all
  have "list_all (\<lambda>x. \<not> P x) es" if "Q e"
  proof -
    from assms(3)[OF that] obtain j where j: "ph e = Some j" "a < j" by auto
    with Cons.prems have le: "\<forall>y\<in>set (List.map_filter ph es). j \<le> y"
      by simp
    show ?thesis unfolding list_all_iff
    proof
      fix x assume x: "x \<in> set es"
      show "\<not> P x"
      proof
        assume "P x"
        from assms(2)[OF this] obtain i where i: "ph x = Some i" "i \<le> a" by auto
        with x have "i \<in> set (List.map_filter ph es)"
          by (force simp: List.map_filter_def)
        with le j i show False by fastforce
      qed
    qed
  qed
  with Cons.IH[OF s] show ?case by simp
qed

lemma main_events_sorted:
  "sorted (List.map_filter phase (events (main challenges build_images ignore_existing) w))"
  using phasedD[OF main_phased, of challenges build_images ignore_existing w]
  by (auto simp: events_def)

subsection \<open>The calls and the passes, computed\<close>

lemma input_Line:
  "stdin w = Line s # rest \<Longrightarrow> input p w = (Inr s, (log (Input p) w)\<lparr>stdin := rest\<rparr>)"
  by (simp add: input_def Let_def)

lemma list_namespaced_ok:
  "serves cl k \<Longrightarrow> list_namespaced cl k sel w =
     (Inr (filter (matches sel) (objects w k)), log (Call cl k (List sel)) w)"
  by (simp add: list_namespaced_def Let_def)

lemma matches_None [simp]: "matches None r"
  by (simp add: matches_def)

lemma delete_unserved:
  "\<not> serves cl k \<Longrightarrow> delete_namespaced cl k n w = (Inl AttributeError, log (Call cl k (Delete n)) w)"
  by (simp add: delete_namespaced_def Let_def)

text \<open>The three deletion passes and the pod pass, once the listing is known.\<close>

lemma delete_hpas_unfold:
  "delete_hpas deployed w =
     (let w1 = log (Call AutoscalingV1Api HorizontalPodAutoscaler (List None)) w;
          names = not_deployed (objects w HorizontalPodAutoscaler) deployed in
      if names = [] then (Inr (), w1)
      else case input (ConfirmDelete HorizontalPodAutoscaler names) w1 of
             (Inl e, w2) \<Rightarrow> (Inl e, w2)
           | (Inr answer, w2) \<Rightarrow>
               if lower answer = ''y''
               then for_each names (delete_namespaced CoreV1Api HorizontalPodAutoscaler) w2
               else (Inr (), w2))"
  by (simp add: delete_hpas_def bind_def list_namespaced_ok Let_def ret_def
      split: prod.splits sum.splits)

lemma delete_deployments_unfold:
  "delete_deployments deployed w =
     (let w1 = log (Call AppsV1Api Deployment (List None)) w;
          names = not_deployed (objects w Deployment) deployed in
      if names = [] then (Inr (), w1)
      else case input (ConfirmDelete Deployment names) w1 of
             (Inl e, w2) \<Rightarrow> (Inl e, w2)
           | (Inr answer, w2) \<Rightarrow>
               if lower answer = ''y''
               then for_each names (delete_namespaced AppsV1Api Deployment) w2
               else (Inr (), w2))"
  by (simp add: delete_deployments_def bind_def list_namespaced_ok Let_def ret_def
      split: prod.splits sum.splits)

lemma delete_services_unfold:
  "delete_services deployed w =
     (let w1 = log (Call CoreV1Api Service (List None)) w;
          names = not_deployed (objects w Service) deployed in
      if names = [] then (Inr (), w1)
      else case input (ConfirmDelete Service names) w1 of
             (Inl e, w2) \<Rightarrow> (Inl e, w2)
           | (Inr answer, w2) \<Rightarrow>
               if lower answer = ''y''
               then for_each names (delete_namespaced CoreV1Api Service) w2
               else (Inr (), w2))"
  by (simp add: delete_services_def bind_def list_namespaced_ok Let_def ret_def
      split: prod.splits sum.splits)

lemma update_pods_unfold:
  "update_pods images w =
     (let w1 = log (Call CoreV1Api Pod (List (Some MANAGED_BY))) w in
      case select_pods (filter (matches (Some MANAGED_BY)) (objects w Pod)) images [] of
        Inl e \<Rightarrow> (Inl e, w1)
      | Inr names \<Rightarrow>
          if names = [] then (Inr (), w1)
          else case input (ConfirmDelete Pod names) w1 of
                 (Inl e, w2) \<Rightarrow> (Inl e, w2)
               | (Inr answer, w2) \<Rightarrow>
                   if lower answer = ''y''
                   then for_each names (delete_namespaced CoreV1Api Pod) w2
                   else (Inr (), w2))"
  by (simp add: update_pods_def bind_def list_namespaced_ok Let_def ret_def raise_def
      split: prod.splits sum.splits)

lemma events_simp:
  "trace (snd (m w)) = trace w @ t \<Longrightarrow> events m w = t"
  by (simp add: events_def)

lemma delete_hpas_approved:
  assumes "not_deployed (objects w HorizontalPodAutoscaler) deployed = n # ns"
    and "stdin w = Line answer # rest" and "lower answer = ''y''"
  shows "delete_hpas deployed w =
           (Inl AttributeError,
            w\<lparr>stdin := rest,
              trace := trace w @ [Call AutoscalingV1Api HorizontalPodAutoscaler (List None),
                       Input (ConfirmDelete HorizontalPodAutoscaler (n # ns)),
                       Call CoreV1Api HorizontalPodAutoscaler (Delete n)]\<rparr>)"
  using assms
  by (simp add: delete_hpas_unfold Let_def input_Line delete_unserved log_def)

subsection \<open>Autoscalers are never changed\<close>

lemma create_or_update_resource_deployment:
  "create_or_update_resource (deployment_manifest c) = create_or_update_deployment (deployment_manifest c)"
  by (simp add: create_or_update_resource_def deployment_manifest_def)

lemma create_or_update_resource_service:
  "create_or_update_resource (service_manifest c) = create_or_update_service (service_manifest c)"
  by (simp add: create_or_update_resource_def service_manifest_def)

lemma deploy_challenge_unfold:
  "deploy_challenge c (dd, dh, ds) =
     bind (try_deploy (deployment_manifest c) c dd)
       (\<lambda>dd'. bind (try_deploy (service_manifest c) c ds) (\<lambda>ds'. ret (dd', dh, ds')))"
  by (rule ext) (simp add: deploy_challenge_def bind_def ret_def split: prod.splits sum.splits)

lemma keeps_hpa_update_pods: "keeps (\<lambda>w. objects w HorizontalPodAutoscaler) (update_pods images)"
  unfolding update_pods_def
  by (intro keeps_bind keeps_list keeps_case_sum keeps_if keeps_input keeps_for_each keeps_delete
        keeps_ret keeps_raise) simp_all

lemma keeps_hpa_build:
  "keeps (\<lambda>w. objects w HorizontalPodAutoscaler) (build_and_push_images cs ig)"
  unfolding build_and_push_images_def
  by (intro keeps_bind keeps_docker_images keeps_case_sum keeps_case_prod keeps_if keeps_pool_map
        keeps_ret keeps_raise commands_loop_keeps keeps_hpa_update_pods) simp_all

lemma keeps_hpa_try_deploy_deployment:
  "keeps (\<lambda>w. objects w HorizontalPodAutoscaler) (try_deploy (deployment_manifest c) c d)"
  unfolding try_deploy_def create_or_update_resource_deployment create_or_update_deployment_def
  by (intro keeps_try_except keeps_bind keeps_read keeps_replace keeps_create keeps_ret) simp_all

lemma keeps_hpa_try_deploy_service:
  "keeps (\<lambda>w. objects w HorizontalPodAutoscaler) (try_deploy (service_manifest c) c d)"
  unfolding try_deploy_def create_or_update_resource_service create_or_update_service_def
  by (intro keeps_try_except keeps_bind keeps_read keeps_replace keeps_create keeps_ret) simp_all

lemma keeps_hpa_deploy_loop:
  "keeps (\<lambda>w. objects w HorizontalPodAutoscaler) (deploy_loop cs deployed)"
proof (induction cs arbitrary: deployed)
  case Nil
  show ?case by (simp add: keeps_def)
next
  case (Cons c cs)
  obtain dd dh ds where d: "deployed = (dd, dh, ds)" by (cases deployed)
  show ?case unfolding deploy_loop_Cons d deploy_challenge_unfold
    by (intro keeps_if_world keeps_bind Cons keeps_hpa_try_deploy_deployment
          keeps_hpa_try_deploy_service keeps_ret)
qed

lemma keeps_hpa_deletes:
  "keeps (\<lambda>w. objects w HorizontalPodAutoscaler) (delete_deployments d)"
  "keeps (\<lambda>w. objects w HorizontalPodAutoscaler) (delete_services d)"
  "keeps (\<lambda>w. objects w HorizontalPodAutoscaler) (delete_hpas d)"
  unfolding delete_deployments_def delete_services_def delete_hpas_def
  by (intro keeps_bind keeps_list keeps_Let keeps_if keeps_input keeps_for_each keeps_delete
        keeps_ret; simp)+

lemma keeps_hpa_main_body:
  "keeps (\<lambda>w. objects w HorizontalPodAutoscaler) (main_body cs b ig)"
  unfolding main_body_def
  by (intro keeps_bind keeps_if keeps_ret keeps_hpa_build keeps_hpa_deploy_loop keeps_case_prod
        keeps_hpa_deletes)

lemma input_objects: "objects (snd (input p w)) = objects w"
  by (simp add: input_def Let_def split: list.splits reply.splits)

lemma main_keeps_hpa:
  "objects (snd (main cs b ig w)) HorizontalPodAutoscaler = objects w HorizontalPodAutoscaler"
proof -
  obtain r w1 where i: "input PressEnter w = (r, w1)" by (cases "input PressEnter w")
  with input_objects[of PressEnter w] have "objects w1 = objects w" by simp
  with i keepsD[OF keeps_hpa_main_body, of cs b ig w1] show ?thesis
    by (cases r) (simp_all add: main_unfold)
qed

subsection \<open>Deleting an Autoscaler ends the run\<close>

lemma raises_afterD:
  "raises_after B E m \<Longrightarrow> \<exists>t. trace (snd (m w)) = trace w @ t \<and> (list_ex B t \<longrightarrow> fst (m w) = Inl E)"
  by (simp add: raises_after_def)

lemma raises_after_bind:
  assumes "emits (\<lambda>e. \<not> B e) m" and "\<And>a. raises_after B E (f a)"
  shows "raises_after B E (bind m f)"
  unfolding raises_after_def
proof
  fix w
  obtain r w1 where mw: "m w = (r, w1)" by (cases "m w")
  from emitsD[OF assms(1), of w] mw obtain t1 where t1: "trace w1 = trace w @ t1"
    "list_all (\<lambda>e. \<not> B e) t1" by auto
  then have nb: "\<not> list_ex B t1" by (simp add: list_ex_iff list_all_iff)
  show "\<exists>t. trace (snd (bind m f w)) = trace w @ t \<and> (list_ex B t \<longrightarrow> fst (bind m f w) = Inl E)"
  proof (cases r)
    case (Inl e)
    with mw t1 nb show ?thesis by (auto simp: bind_def intro!: exI[of _ t1])
  next
    case (Inr a)
    from raises_afterD[OF assms(2), of a w1] obtain t2 where
      "trace (snd (f a w1)) = trace w1 @ t2" "list_ex B t2 \<longrightarrow> fst (f a w1) = Inl E" by auto
    with Inr mw t1 nb show ?thesis by (auto simp: bind_def intro!: exI[of _ "t1 @ t2"])
  qed
qed

lemma is_hpa_delete_simps [simp]:
  "is_hpa_delete (Call cl k (Delete n)) = (k = HorizontalPodAutoscaler)"
  "\<not> is_hpa_delete (Call cl k (Read n))" "\<not> is_hpa_delete (Call cl k (List s))"
  "\<not> is_hpa_delete (Call cl k (Create b))" "\<not> is_hpa_delete (Call cl k (Replace n b))"
  "\<not> is_hpa_delete (Input p)" "\<not> is_hpa_delete DockerImages" "\<not> is_hpa_delete (PoolMap cs)"
  by (simp_all add: is_hpa_delete_def)

lemma delete_hpas_raises: "raises_after is_hpa_delete AttributeError (delete_hpas d)"
  unfolding raises_after_def
proof
  fix w :: world
  let ?names = "not_deployed (objects w HorizontalPodAutoscaler) d"
  show "\<exists>t. trace (snd (delete_hpas d w)) = trace w @ t \<and>
            (list_ex is_hpa_delete t \<longrightarrow> fst (delete_hpas d w) = Inl AttributeError)"
  proof (cases ?names)
    case Nil
    then show ?thesis by (simp add: delete_hpas_unfold)
  next
    case (Cons n ns)
    note names = this
    show ?thesis
    proof (cases "stdin w")
      case Nil
      with names show ?thesis by (simp add: delete_hpas_unfold input_def Let_def)
    next
      case (Cons r rest)
      show ?thesis
      proof (cases r)
        case Interrupt
        with names Cons show ?thesis by (simp add: delete_hpas_unfold input_def Let_def)
      next
        case (Line answer)
        with names Cons show ?thesis
          by (simp add: delete_hpas_unfold input_def Let_def delete_unserved)
      qed
    qed
  qed
qed

subsection \<open>Every event of \<^verbatim>\<open>main\<close>\<close>

lemma emits_main:
  assumes "P (Input PressEnter)" and "emits P (main_body cs b ig)"
  shows "emits P (main cs b ig)"
  unfolding emits_def
proof
  fix w
  obtain r w1 where i: "input PressEnter w = (r, w1)" by (cases "input PressEnter w")
  with input_trace[of PressEnter w] have t1: "trace w1 = trace w @ [Input PressEnter]" by simp
  from emitsD[OF assms(2), of w1] obtain t where
    "trace (snd (main_body cs b ig w1)) = trace w1 @ t" "list_all P t" by auto
  with i t1 assms(1) show "\<exists>t. trace (snd (main cs b ig w)) = trace w @ t \<and> list_all P t"
    by (cases r) (auto simp: main_unfold)
qed

lemma emits_build: 
  assumes "P DockerImages" "\<And>cs. P (PoolMap cs)" "\<And>s. P (Call CoreV1Api Pod (List s))"
    "\<And>n. P (Call CoreV1Api Pod (Delete n))" "\<And>ns. P (Input (ConfirmDelete Pod ns))"
  shows "emits P (build_and_push_images cs ig)"
  unfolding build_and_push_images_def update_pods_def
  by (intro emits_bind emits_docker_images emits_case_sum emits_case_prod emits_if emits_pool_map
        emits_ret emits_raise commands_loop_emits emits_list emits_input emits_for_each emits_delete
        assms)

lemma emits_deploy_loop:
  assumes "\<And>n. P (Call AppsV1Api Deployment (Read n))" "\<And>n. P (Call CoreV1Api Service (Read n))"
    "\<And>c. P (Call AppsV1Api Deployment (Replace (challenge_id c) (deployment_manifest c)))"
    "\<And>c. P (Call AppsV1Api Deployment (Create (deployment_manifest c)))"
    "\<And>c. P (Call CoreV1Api Service (Replace (challenge_id c) (service_manifest c)))"
    "\<And>c. P (Call CoreV1Api Service (Create (service_manifest c)))"
  shows "emits P (deploy_loop cs deployed)"
proof (induction cs arbitrary: deployed)
  case Nil
  show ?case by (simp add: emits_def)
next
  case (Cons c cs)
  obtain dd dh ds where d: "deployed = (dd, dh, ds)" by (cases deployed)
  have n: "metadata_name (deployment_manifest c) = challenge_id c"
    "metadata_name (service_manifest c) = challenge_id c"
    by (simp_all add: deployment_manifest_def service_manifest_def)
  show ?case unfolding deploy_loop_Cons d deploy_challenge_unfold try_deploy_def
      create_or_update_resource_deployment create_or_update_resource_service
      create_or_update_deployment_def create_or_update_service_def n
    by (intro emits_if_world emits_bind Cons emits_try_except emits_read emits_replace emits_create
          emits_ret assms)
qed

lemma emits_delete_deployments:
  assumes "P (Call AppsV1Api Deployment (List None))" "\<And>ns. P (Input (ConfirmDelete Deployment ns))"
    "\<And>n. P (Call AppsV1Api Deployment (Delete n))"
  shows "emits P (delete_deployments d)"
  unfolding delete_deployments_def
  by (intro emits_bind emits_list emits_Let emits_if emits_input emits_for_each emits_delete emits_ret assms)

lemma emits_delete_services:
  assumes "P (Call CoreV1Api Service (List None))" "\<And>ns. P (Input (ConfirmDelete Service ns))"
    "\<And>n. P (Call CoreV1Api Service (Delete n))"
  shows "emits P (delete_services d)"
  unfolding delete_services_def
  by (intro emits_bind emits_list emits_Let emits_if emits_input emits_for_each emits_delete emits_ret assms)

lemma emits_delete_hpas:
  assumes "P (Call AutoscalingV1Api HorizontalPodAutoscaler (List None))"
    "\<And>ns. P (Input (ConfirmDelete HorizontalPodAutoscaler ns))"
    "\<And>n. P (Call CoreV1Api HorizontalPodAutoscaler (Delete n))"
  shows "emits P (delete_hpas d)"
  unfolding delete_hpas_def
  by (intro emits_bind emits_list emits_Let emits_if emits_input emits_for_each emits_delete emits_ret assms)

lemma emits_main_body_gen:
  assumes "emits P (build_and_push_images cs ig)" "\<And>d. emits P (deploy_loop cs d)"
    "\<And>d. emits P (delete_deployments d)" "\<And>d. emits P (delete_services d)"
    "\<And>d. emits P (delete_hpas d)"
  shows "emits P (main_body cs b ig)"
  unfolding main_body_def
  by (intro emits_bind emits_if emits_ret emits_case_prod assms)

lemma main_events: "emits main_event (main cs b ig)"
  apply (rule emits_main)
   apply (simp add: main_event_def)
  apply (rule emits_main_body_gen)
      apply (rule emits_build; simp add: main_event_def)
     apply (rule emits_deploy_loop; simp add: main_event_def)
    apply (rule emits_delete_deployments; simp add: main_event_def)
   apply (rule emits_delete_services; simp add: main_event_def)
  apply (rule emits_delete_hpas; simp add: main_event_def)
  done

lemma main_body_raises: "raises_after is_hpa_delete AttributeError (main_body cs b ig)"
  unfolding main_body_def
  apply (rule raises_after_bind)
   apply (rule emits_if)
    apply (rule emits_build; simp)
   apply simp
  apply (rule raises_after_bind)
   apply (rule emits_deploy_loop; simp)
  apply (simp split: prod.splits, intro allI impI)
  apply (rule raises_after_bind)
   apply (rule emits_delete_deployments; simp)
  apply (rule raises_after_bind)
   apply (rule emits_delete_services; simp)
  apply (rule delete_hpas_raises)
  done

lemma main_raises: "raises_after is_hpa_delete AttributeError (main cs b ig)"
  unfolding raises_after_def
proof
  fix w
  obtain r w1 where i: "input PressEnter w = (r, w1)" by (cases "input PressEnter w")
  with input_trace[of PressEnter w] have t1: "trace w1 = trace w @ [Input PressEnter]" by simp
  from raises_afterD[OF main_body_raises, of cs b ig w1] obtain t where
    "trace (snd (main_body cs b ig w1)) = trace w1 @ t"
    "list_ex is_hpa_delete t \<longrightarrow> fst (main_body cs b ig w1) = Inl AttributeError" by auto
  with i t1 show "\<exists>t. trace (snd (main cs b ig w)) = trace w @ t \<and>
      (list_ex is_hpa_delete t \<longrightarrow> fst (main cs b ig w) = Inl AttributeError)"
    by (cases r) (auto simp: main_unfold)
qed

lemma char_eq_code: "c = d \<longleftrightarrow> (of_char c :: nat) = of_char d"
  by simp

lemma lower_char_y: "lower_char c = CHR ''y'' \<longleftrightarrow> c = CHR ''y'' \<or> c = CHR ''Y''"
proof -
  have "(of_char (lower_char c) :: nat) = 121 \<longleftrightarrow> (of_char c :: nat) = 121 \<or> (of_char c :: nat) = 89"
    by (auto simp: lower_char_def)
  then show ?thesis
    by (simp add: char_eq_code[of _ "CHR ''y''"] char_eq_code[of _ "CHR ''Y''"])
qed

lemma lower_y: "lower answer = ''y'' \<longleftrightarrow> answer = ''y'' \<or> answer = ''Y''"
  by (cases answer) (auto simp: lower_def lower_char_y)

subsection \<open>Deleting listed names\<close>

lemma lookup_None_iff: "lookup rs n = None \<longleftrightarrow> n \<notin> set (map metadata_name rs)"
  by (induction rs) (auto simp: lookup_def)

lemma mset_names_remove_first:
  "n \<in> set (map metadata_name rs) \<Longrightarrow>
   image_mset metadata_name (mset (remove_first n rs)) =
     image_mset metadata_name (mset rs) - {#n#}"
  by (induction rs) auto

lemma delete_namespaced_ok:
  "serves cl k \<Longrightarrow> n \<in> set (map metadata_name (objects w k)) \<Longrightarrow>
   delete_namespaced cl k n w =
     (Inr (), set_objects k (remove_first n (objects w k)) (log (Call cl k (Delete n)) w))"
  by (simp add: delete_namespaced_def Let_def lookup_None_iff)

lemma for_each_delete_ok:
  assumes "serves cl k"
  shows "mset ns \<subseteq># mset (map metadata_name (objects w k)) \<Longrightarrow>
     for_each ns (delete_namespaced cl k) w =
       (Inr (), w\<lparr>objects := (objects w)(k := fold remove_first ns (objects w k)),
                  trace := trace w @ map (\<lambda>n. Call cl k (Delete n)) ns\<rparr>)"
proof (induction ns arbitrary: w)
  case Nil
  show ?case by simp
next
  case (Cons n ns)
  from Cons.prems have n: "n \<in> set (map metadata_name (objects w k))"
    by (metis mset_subset_eqD set_mset_mset list.set_intros(1))
  let ?w1 = "set_objects k (remove_first n (objects w k)) (log (Call cl k (Delete n)) w)"
  have "mset ns \<subseteq># mset (map metadata_name (objects ?w1 k))"
    using Cons.prems n by (simp add: mset_names_remove_first insert_subset_eq_iff)
  from Cons.IH[OF this] have
    "for_each ns (delete_namespaced cl k) ?w1 =
       (Inr (), ?w1\<lparr>objects := (objects ?w1)(k := fold remove_first ns (objects ?w1 k)),
                  trace := trace ?w1 @ map (\<lambda>n. Call cl k (Delete n)) ns\<rparr>)" .
  moreover have "?w1\<lparr>objects := (objects ?w1)(k := fold remove_first ns (objects ?w1 k)),
                  trace := trace ?w1 @ map (\<lambda>n. Call cl k (Delete n)) ns\<rparr> =
        w\<lparr>objects := (objects w)(k := fold remove_first (n # ns) (objects w k)),
                  trace := trace w @ map (\<lambda>n. Call cl k (Delete n)) (n # ns)\<rparr>"
    by (simp add: set_objects_def log_def)
  ultimately show ?case
    by (simp only: for_each.simps delete_namespaced_ok[OF assms n] prod.case sum.case)
qed

lemma mset_not_deployed:
  "mset (not_deployed rs d) \<subseteq># image_mset metadata_name (mset rs)"
  unfolding not_deployed_def by (simp add: image_mset_subseteq_mono)

lemma select_pods_spec:
  "select_pods pods images acc = Inr names \<Longrightarrow>
   names = acc @ map metadata_name (filter (first_image_in images) pods)"
proof (induction pods arbitrary: acc)
  case Nil
  then show ?case by simp
next
  case (Cons p ps)
  show ?case
  proof (cases "first_container_image p")
    case (Inl e)
    with Cons.prems show ?thesis by simp
  next
    case (Inr img)
    show ?thesis
    proof (cases "img \<in> set images")
      case True
      with Inr Cons.prems have "select_pods ps images (acc @ [metadata_name p]) = Inr names"
        by simp
      from Cons.IH[OF this] Inr True show ?thesis by (simp add: first_image_in_def)
    next
      case False
      with Inr Cons.prems have "select_pods ps images acc = Inr names" by simp
      from Cons.IH[OF this] Inr False show ?thesis by (simp add: first_image_in_def)
    qed
  qed
qed

lemma mset_selected:
  "image_mset metadata_name (filter_mset P (mset rs)) \<subseteq># image_mset metadata_name (mset rs)"
  by (simp add: image_mset_subseteq_mono)

subsection \<open>The four batches when the operator answers\<close>

lemma delete_deployments_Line:
  assumes "stdin w = Line answer # rest" and "not_deployed (objects w Deployment) d \<noteq> []"
  shows "delete_deployments d w =
     (Inr (), w\<lparr>stdin := rest,
        objects := if lower answer = ''y''
                   then (objects w)(Deployment := fold remove_first (not_deployed (objects w Deployment) d) (objects w Deployment))
                   else objects w,
        trace := trace w @ [Call AppsV1Api Deployment (List None),
                   Input (ConfirmDelete Deployment (not_deployed (objects w Deployment) d))] @
                 (if lower answer = ''y''
                  then map (\<lambda>n. Call AppsV1Api Deployment (Delete n)) (not_deployed (objects w Deployment) d)
                  else [])\<rparr>)"
proof -
  let ?w2 = "(log (Input (ConfirmDelete Deployment (not_deployed (objects w Deployment) d)))
               (log (Call AppsV1Api Deployment (List None)) w))\<lparr>stdin := rest\<rparr>"
  have "mset (not_deployed (objects w Deployment) d) \<subseteq># mset (map metadata_name (objects ?w2 Deployment))"
    by (simp add: mset_not_deployed)
  from for_each_delete_ok[OF _ this, of AppsV1Api] assms show ?thesis
    by (simp add: delete_deployments_unfold Let_def input_Line log_def)
qed

lemma delete_services_Line:
  assumes "stdin w = Line answer # rest" and "not_deployed (objects w Service) d \<noteq> []"
  shows "delete_services d w =
     (Inr (), w\<lparr>stdin := rest,
        objects := if lower answer = ''y''
                   then (objects w)(Service := fold remove_first (not_deployed (objects w Service) d) (objects w Service))
                   else objects w,
        trace := trace w @ [Call CoreV1Api Service (List None),
                   Input (ConfirmDelete Service (not_deployed (objects w Service) d))] @
                 (if lower answer = ''y''
                  then map (\<lambda>n. Call CoreV1Api Service (Delete n)) (not_deployed (objects w Service) d)
                  else [])\<rparr>)"
proof -
  let ?w2 = "(log (Input (ConfirmDelete Service (not_deployed (objects w Service) d)))
               (log (Call CoreV1Api Service (List None)) w))\<lparr>stdin := rest\<rparr>"
  have "mset (not_deployed (objects w Service) d) \<subseteq># mset (map metadata_name (objects ?w2 Service))"
    by (simp add: mset_not_deployed)
  from for_each_delete_ok[OF _ this, of CoreV1Api] assms show ?thesis
    by (simp add: delete_services_unfold Let_def input_Line log_def)
qed

lemma update_pods_Line:
  assumes "stdin w = Line answer # rest"
    and "select_pods (filter (matches (Some MANAGED_BY)) (objects w Pod)) images [] = Inr names"
    and "names \<noteq> []"
  shows "update_pods images w =
     (Inr (), w\<lparr>stdin := rest,
        objects := if lower answer = ''y''
                   then (objects w)(Pod := fold remove_first names (objects w Pod))
                   else objects w,
        trace := trace w @ [Call CoreV1Api Pod (List (Some MANAGED_BY)),
                   Input (ConfirmDelete Pod names)] @
                 (if lower answer = ''y''
                  then map (\<lambda>n. Call CoreV1Api Pod (Delete n)) names
                  else [])\<rparr>)"
proof -
  let ?w2 = "(log (Input (ConfirmDelete Pod names))
               (log (Call CoreV1Api Pod (List (Some MANAGED_BY))) w))\<lparr>stdin := rest\<rparr>"
  have "mset names \<subseteq># mset (map metadata_name (objects ?w2 Pod))"
    using select_pods_spec[OF assms(2)] by (simp add: mset_selected)
  from for_each_delete_ok[OF _ this, of CoreV1Api] assms show ?thesis
    by (simp add: update_pods_unfold Let_def input_Line log_def)
qed


lemma update_pods_events:
  assumes "e \<in> set (events (update_pods images) w)"
  shows "e = Call CoreV1Api Pod (List (Some MANAGED_BY)) \<or>
         (\<exists>names. select_pods (filter (matches (Some MANAGED_BY)) (objects w Pod)) images [] = Inr names \<and>
            (e = Input (ConfirmDelete Pod names) \<or> (\<exists>n\<in>set names. e = Call CoreV1Api Pod (Delete n))))"
proof (cases "select_pods (filter (matches (Some MANAGED_BY)) (objects w Pod)) images []")
  case (Inl err)
  with assms show ?thesis by (simp add: events_def update_pods_unfold)
next
  case (Inr names)
  show ?thesis
  proof (cases "names = []")
    case True
    with Inr assms show ?thesis by (simp add: events_def update_pods_unfold)
  next
    case False
    show ?thesis
    proof (cases "stdin w")
      case Nil
      with Inr False assms show ?thesis
        by (auto simp: events_def update_pods_unfold input_def Let_def)
    next
      case (Cons r rest)
      show ?thesis
      proof (cases r)
        case Interrupt
        with Cons Inr False assms show ?thesis
          by (auto simp: events_def update_pods_unfold input_def Let_def)
      next
        case (Line answer)
        with Cons have "stdin w = Line answer # rest" by simp
        from update_pods_Line[OF this Inr False] assms Inr show ?thesis
          by (auto simp: events_def split: if_splits)
      qed
    qed
  qed
qed

subsection \<open>\<^verbatim>\<open>clean_cluster\<close>\<close>

lemma for_each_map: "for_each (map f xs) g w = for_each xs (\<lambda>x. g (f x)) w"
  by (induction xs arbitrary: w) (auto split: prod.splits sum.splits)

lemma remove_first_distinct:
  "distinct (map metadata_name rs) \<Longrightarrow>
   remove_first n rs = filter (\<lambda>r. metadata_name r \<noteq> n) rs"
proof (induction rs)
  case Nil
  show ?case by simp
next
  case (Cons a rs)
  show ?case
  proof (cases "metadata_name a = n")
    case True
    with Cons.prems have "n \<notin> metadata_name ` set rs" by simp
    then have "\<forall>r\<in>set rs. metadata_name r \<noteq> n" by blast
    then have "filter (\<lambda>r. metadata_name r \<noteq> n) rs = rs" by (rule filter_True)
    with True show ?thesis by simp
  next
    case False
    with Cons show ?thesis by simp
  qed
qed

lemma fold_remove_first_distinct:
  "distinct (map metadata_name rs) \<Longrightarrow>
   fold remove_first ns rs = filter (\<lambda>r. metadata_name r \<notin> set ns) rs"
proof (induction ns arbitrary: rs)
  case Nil
  show ?case by simp
next
  case (Cons n ns)
  have "distinct (map metadata_name (filter (\<lambda>r. metadata_name r \<noteq> n) rs))"
    using Cons.prems by (rule distinct_map_filter)
  from Cons.IH[OF this] Cons.prems show ?case
    by (simp add: remove_first_distinct)
qed

lemma remove_listed_distinct:
  assumes "distinct (map metadata_name rs)"
  shows "fold remove_first (map metadata_name (filter P rs)) rs = filter (\<lambda>r. \<not> P r) rs"
proof -
  have inj: "inj_on metadata_name (set rs)" using assms by (simp add: distinct_map)
  have "filter (\<lambda>r. metadata_name r \<notin> set (map metadata_name (filter P rs))) rs = filter (\<lambda>r. \<not> P r) rs"
  proof (rule filter_cong[OF refl])
    fix r assume "r \<in> set rs"
    with inj show "(metadata_name r \<notin> set (map metadata_name (filter P rs))) = (\<not> P r)"
      by (auto dest: inj_onD)
  qed
  with fold_remove_first_distinct[OF assms] show ?thesis by simp
qed

lemma clean_cluster_result:
  "clean_cluster w =
     (Inr (),
      w\<lparr>objects := (objects w)
           (Service := fold remove_first
              (map metadata_name (filter (matches (Some MANAGED_BY)) (objects w Service)))
              (objects w Service),
            Deployment := fold remove_first
              (map metadata_name (filter (matches (Some MANAGED_BY)) (objects w Deployment)))
              (objects w Deployment)),
        trace := trace w @
          Call CoreV1Api Service (List (Some MANAGED_BY)) #
          map (\<lambda>n. Call CoreV1Api Service (Delete n))
            (map metadata_name (filter (matches (Some MANAGED_BY)) (objects w Service))) @
          Call AppsV1Api Deployment (List (Some MANAGED_BY)) #
          map (\<lambda>n. Call AppsV1Api Deployment (Delete n))
            (map metadata_name (filter (matches (Some MANAGED_BY)) (objects w Deployment)))\<rparr>)"
proof -
  let ?sv = "map metadata_name (filter (matches (Some MANAGED_BY)) (objects w Service))"
  let ?dp = "map metadata_name (filter (matches (Some MANAGED_BY)) (objects w Deployment))"
  let ?w1 = "log (Call CoreV1Api Service (List (Some MANAGED_BY))) w"
  have 1: "for_each ?sv (delete_namespaced CoreV1Api Service) ?w1 =
       (Inr (), ?w1\<lparr>objects := (objects ?w1)(Service := fold remove_first ?sv (objects ?w1 Service)),
                  trace := trace ?w1 @ map (\<lambda>n. Call CoreV1Api Service (Delete n)) ?sv\<rparr>)"
    by (rule for_each_delete_ok) (simp_all add: mset_selected)
  let ?w2 = "?w1\<lparr>objects := (objects ?w1)(Service := fold remove_first ?sv (objects ?w1 Service)),
                  trace := trace ?w1 @ map (\<lambda>n. Call CoreV1Api Service (Delete n)) ?sv\<rparr>"
  let ?w3 = "log (Call AppsV1Api Deployment (List (Some MANAGED_BY))) ?w2"
  have 2: "for_each ?dp (delete_namespaced AppsV1Api Deployment) ?w3 =
       (Inr (), ?w3\<lparr>objects := (objects ?w3)(Deployment := fold remove_first ?dp (objects ?w3 Deployment)),
                  trace := trace ?w3 @ map (\<lambda>n. Call AppsV1Api Deployment (Delete n)) ?dp\<rparr>)"
    by (rule for_each_delete_ok) (simp_all add: mset_selected)
  have "clean_cluster w =
     (Inr (), ?w3\<lparr>objects := (objects ?w3)(Deployment := fold remove_first ?dp (objects ?w3 Deployment)),
                  trace := trace ?w3 @ map (\<lambda>n. Call AppsV1Api Deployment (Delete n)) ?dp\<rparr>)"
    using 1 2
    by (simp add: clean_cluster_def bind_def list_namespaced_ok for_each_map[symmetric, where f = metadata_name])
  then show ?thesis by (simp add: log_def)
qed

subsection \<open>Create or update, and the loop over the challenges\<close>

lemma after_cou_fields [simp]:
  "trace (after_cou cl k r w) = trace w @ cou_events cl k r w"
  "files (after_cou cl k r w) = files w"
  "admission (after_cou cl k r w) = admission w"
  "stdin (after_cou cl k r w) = stdin w"
  "docker_stdout (after_cou cl k r w) = docker_stdout w"
  "objects (after_cou cl k r w) =
     (if admission w r then (objects w)(k := upsert r (objects w k)) else objects w)"
  by (simp_all add: after_cou_def)

lemma create_or_update_result:
  assumes "serves cl k"
  shows "try_except
       (bind (read_namespaced cl k (metadata_name r))
          (\<lambda>_. replace_namespaced cl k (metadata_name r) r))
       (\<lambda>e. create_namespaced cl k r) w =
     (if admission w r then Inr () else Inl ApiException, after_cou cl k r w)"
proof (cases "lookup (objects w k) (metadata_name r)")
  case None
  with assms show ?thesis
    by (simp add: try_except_def bind_def read_namespaced_def replace_namespaced_def
        create_namespaced_def Let_def is_Exception_def after_cou_def cou_events_def upsert_def
        log_def set_objects_def)
next
  case (Some x)
  with assms show ?thesis
    by (simp add: try_except_def bind_def read_namespaced_def replace_namespaced_def
        create_namespaced_def Let_def is_Exception_def after_cou_def cou_events_def upsert_def
        log_def set_objects_def)
qed

lemma create_or_update_resource_deployment_result:
  "create_or_update_resource (deployment_manifest c) w =
     (if admission w (deployment_manifest c) then Inr () else Inl ApiException,
      after_cou AppsV1Api Deployment (deployment_manifest c) w)"
  unfolding create_or_update_resource_deployment create_or_update_deployment_def
  by (rule create_or_update_result) simp

lemma create_or_update_resource_service_result:
  "create_or_update_resource (service_manifest c) w =
     (if admission w (service_manifest c) then Inr () else Inl ApiException,
      after_cou CoreV1Api Service (service_manifest c) w)"
  unfolding create_or_update_resource_service create_or_update_service_def
  by (rule create_or_update_result) simp

lemma try_deploy_result:
  assumes "create_or_update_resource r w = (if admission w r then Inr () else Inl ApiException, w')"
  shows "try_deploy r c d w = (Inr (if admission w r then d @ [c] else d), w')"
  using assms by (simp add: try_deploy_def try_except_def bind_def ret_def is_Exception_def)

lemma try_deploy_deployment:
  "try_deploy (deployment_manifest c) c d w =
     (Inr (if admission w (deployment_manifest c) then d @ [c] else d),
      after_cou AppsV1Api Deployment (deployment_manifest c) w)"
  by (rule try_deploy_result) (rule create_or_update_resource_deployment_result)

lemma try_deploy_service:
  "try_deploy (service_manifest c) c d w =
     (Inr (if admission w (service_manifest c) then d @ [c] else d),
      after_cou CoreV1Api Service (service_manifest c) w)"
  by (rule try_deploy_result) (rule create_or_update_resource_service_result)

lemma deploy_challenge_result:
  "deploy_challenge c (dd, dh, ds) w =
     (Inr (if admission w (deployment_manifest c) then dd @ [c] else dd, dh,
           if admission w (service_manifest c) then ds @ [c] else ds),
      after_cou CoreV1Api Service (service_manifest c)
        (after_cou AppsV1Api Deployment (deployment_manifest c) w))"
  by (simp add: deploy_challenge_unfold bind_def try_deploy_deployment try_deploy_service ret_def)


lemma deploy_loop_step:
  "path_exists (path c @ ''/Dockerfile'') w \<Longrightarrow>
   deploy_loop (c # cs) (dd, dh, ds) w =
     deploy_loop cs (if admission w (deployment_manifest c) then dd @ [c] else dd, dh,
                     if admission w (service_manifest c) then ds @ [c] else ds)
       (after_cou CoreV1Api Service (service_manifest c)
          (after_cou AppsV1Api Deployment (deployment_manifest c) w))"
  by (simp add: deploy_challenge_result)




subsection \<open>Events of a sequence\<close>

lemma traced_events: "emits (\<lambda>_. True) m \<Longrightarrow> trace (snd (m w)) = trace w @ events m w"
  using emits_events[of "\<lambda>_. True" m w] by simp

lemma events_bind:
  assumes "emits (\<lambda>_. True) m" and "\<And>a. emits (\<lambda>_. True) (f a)"
  shows "events (bind m f) w =
     events m w @ (case m w of (Inl e, w') \<Rightarrow> [] | (Inr a, w') \<Rightarrow> events (f a) w')"
proof -
  obtain r w1 where mw: "m w = (r, w1)" by (cases "m w")
  from traced_events[OF assms(1), of w] mw have t1: "trace w1 = trace w @ events m w" by simp
  show ?thesis
  proof (cases r)
    case (Inl e)
    with mw t1 show ?thesis by (simp add: events_def bind_def)
  next
    case (Inr a)
    from traced_events[OF assms(2), of a w1]
    have "trace (snd (f a w1)) = trace w @ events m w @ events (f a) w1"
      using t1 by simp
    with Inr mw have "trace (snd (bind m f w)) = trace w @ events m w @ events (f a) w1"
      by (simp add: bind_def)
    then have "events (bind m f) w = events m w @ events (f a) w1"
      by (simp add: events_def)
    with Inr mw show ?thesis by simp
  qed
qed


lemma traced_blocks:
  "emits (\<lambda>_. True) (build_and_push_images cs ig)"
  "emits (\<lambda>_. True) (deploy_loop cs d)"
  "emits (\<lambda>_. True) (delete_deployments dd)"
  "emits (\<lambda>_. True) (delete_services ds)"
  "emits (\<lambda>_. True) (delete_hpas dh)"
  "emits (\<lambda>_. True) (update_pods images)"
  by (rule emits_build emits_deploy_loop emits_delete_deployments emits_delete_services
      emits_delete_hpas emits_mono[OF update_pods_emits]; simp)+

subsection \<open>What the passes keep\<close>

lemma keeps_build:
  assumes "untraced f" "\<And>w rs. f (set_objects Pod rs w) = f w" "\<And>w s. f (w\<lparr>stdin := s\<rparr>) = f w"
    "\<And>w s. f (w\<lparr>docker_stdout := s\<rparr>) = f w"
  shows "keeps f (build_and_push_images cs ig)"
  unfolding build_and_push_images_def update_pods_def
  by (intro keeps_bind keeps_docker_images keeps_case_sum keeps_case_prod keeps_if keeps_pool_map
        keeps_ret keeps_raise commands_loop_keeps keeps_list keeps_input keeps_for_each keeps_delete
        assms)



subsection \<open>The events of the deletion passes\<close>







subsection \<open>Names in the cluster after the loop\<close>





lemma manifest_names [simp]:
  "metadata_name (deployment_manifest c) = challenge_id c"
  "metadata_name (service_manifest c) = challenge_id c"
  "metadata_name (hpa_manifest c) = challenge_id c"
  by (simp_all add: deployment_manifest_def service_manifest_def hpa_manifest_def)





lemma main_events_unfold:
  "events (main cs b ig) w =
     Input PressEnter # (case input PressEnter w of (Inl e, w1) \<Rightarrow> []
                         | (Inr a, w1) \<Rightarrow> events (main_body cs b ig) w1)"
proof -
  obtain r w1 where i: "input PressEnter w = (r, w1)" by (cases "input PressEnter w")
  with input_trace[of PressEnter w] have t1: "trace w1 = trace w @ [Input PressEnter]" by simp
  show ?thesis
  proof (cases r)
    case (Inl e)
    with i t1 show ?thesis by (simp add: events_def main_unfold)
  next
    case (Inr a)
    have "emits (\<lambda>_. True) (main_body cs b ig)"
      by (rule emits_main_body_gen) (rule traced_blocks)+
    define t where "t = events (main_body cs b ig) w1"
    from traced_events[OF \<open>emits (\<lambda>_. True) (main_body cs b ig)\<close>, of w1] t1
    have "trace (snd (main_body cs b ig w1)) = trace w @ (Input PressEnter # t)"
      by (simp add: t_def)
    moreover have "main cs b ig w = main_body cs b ig w1" using Inr i by (simp add: main_unfold)
    ultimately have "events (main cs b ig) w = Input PressEnter # t"
      by (simp add: events_def)
    with Inr i show ?thesis by (simp add: t_def)
  qed
qed

subsection \<open>Reads and writes of the loop\<close>

lemma with_dockerfile_cong:
  "files w' = files w \<Longrightarrow> with_dockerfile w' cs = with_dockerfile w cs"
  by (simp add: with_dockerfile_def path_exists_def)

lemma reads_cou [simp]:
  "List.map_filter read_of (cou_events cl k r w) = [(cl, k, metadata_name r)]"
  by (simp add: cou_events_def read_of_def List.map_filter_def)

lemma writes_cou:
  "List.map_filter write_of (cou_events cl k r w) =
     (if lookup (objects w k) (metadata_name r) \<noteq> None \<and> \<not> admission w r
      then [(cl, k, r), (cl, k, r)] else [(cl, k, r)])"
  by (simp add: cou_events_def write_of_def List.map_filter_def)

lemma writes_cou_set:
  "set (List.map_filter write_of (cou_events cl k r w)) = {(cl, k, r)}"
  by (simp add: writes_cou)

lemma deploy_loop_events_step:
  assumes "path_exists (path c @ ''/Dockerfile'') w"
  shows "events (deploy_loop (c # cs) (dd, dh, ds)) w =
     cou_events AppsV1Api Deployment (deployment_manifest c) w @
     cou_events CoreV1Api Service (service_manifest c)
       (after_cou AppsV1Api Deployment (deployment_manifest c) w) @
     events (deploy_loop cs (if admission w (deployment_manifest c) then dd @ [c] else dd, dh,
                     if admission w (service_manifest c) then ds @ [c] else ds))
       (after_cou CoreV1Api Service (service_manifest c)
          (after_cou AppsV1Api Deployment (deployment_manifest c) w))"
proof -
  let ?w2 = "after_cou CoreV1Api Service (service_manifest c)
          (after_cou AppsV1Api Deployment (deployment_manifest c) w)"
  let ?d = "(if admission w (deployment_manifest c) then dd @ [c] else dd, dh,
                     if admission w (service_manifest c) then ds @ [c] else ds)"
  define t where "t = events (deploy_loop cs ?d) ?w2"
  have "trace (snd (deploy_loop cs ?d ?w2)) = trace ?w2 @ t"
    unfolding t_def by (rule traced_events) (rule traced_blocks)
  then have "trace (snd (deploy_loop (c # cs) (dd, dh, ds) w)) =
     trace w @ cou_events AppsV1Api Deployment (deployment_manifest c) w @
     cou_events CoreV1Api Service (service_manifest c)
       (after_cou AppsV1Api Deployment (deployment_manifest c) w) @ t"
    by (simp only: deploy_loop_step[OF assms] after_cou_fields append_assoc)
  then show ?thesis unfolding t_def[symmetric] by (rule events_simp)
qed

lemma deploy_loop_events_skip:
  "\<not> path_exists (path c @ ''/Dockerfile'') w \<Longrightarrow>
   events (deploy_loop (c # cs) d) w = events (deploy_loop cs d) w"
  by (simp add: events_def)

lemma deploy_loop_reads:
  "List.map_filter read_of (events (deploy_loop cs d) w) =
     concat (map (\<lambda>c. [(AppsV1Api, Deployment, challenge_id c), (CoreV1Api, Service, challenge_id c)])
               (with_dockerfile w cs))"
proof (induction cs arbitrary: d w)
  case Nil
  show ?case by (simp add: events_def with_dockerfile_def List.map_filter_def)
next
  case (Cons c cs)
  obtain dd dh ds where d: "d = (dd, dh, ds)" by (cases d)
  show ?case
  proof (cases "path_exists (path c @ ''/Dockerfile'') w")
    case False
    then have "with_dockerfile w (c # cs) = with_dockerfile w cs"
      by (simp add: with_dockerfile_def)
    with Cons[of d w] show ?thesis
      by (simp only: deploy_loop_events_skip[OF False])
  next
    case True
    let ?w2 = "after_cou CoreV1Api Service (service_manifest c)
          (after_cou AppsV1Api Deployment (deployment_manifest c) w)"
    have "with_dockerfile ?w2 cs = with_dockerfile w cs"
      by (rule with_dockerfile_cong) simp
    with Cons[of _ ?w2] True show ?thesis
      unfolding d deploy_loop_events_step[OF True]
      by (simp add: map_filter_append with_dockerfile_def del: deploy_loop.simps)
  qed
qed

lemma deploy_loop_writes_subset:
  "set (List.map_filter write_of (events (deploy_loop cs d) w)) \<subseteq>
     (\<Union>c\<in>set (with_dockerfile w cs).
        {(AppsV1Api, Deployment, deployment_manifest c), (CoreV1Api, Service, service_manifest c)})"
proof (induction cs arbitrary: d w)
  case Nil
  show ?case by (simp add: events_def with_dockerfile_def List.map_filter_def)
next
  case (Cons c cs)
  obtain dd dh ds where d: "d = (dd, dh, ds)" by (cases d)
  show ?case
  proof (cases "path_exists (path c @ ''/Dockerfile'') w")
    case False
    then have "with_dockerfile w (c # cs) = with_dockerfile w cs"
      by (simp add: with_dockerfile_def)
    with Cons[of d w] show ?thesis
      by (simp only: deploy_loop_events_skip[OF False])
  next
    case True
    let ?w2 = "after_cou CoreV1Api Service (service_manifest c)
          (after_cou AppsV1Api Deployment (deployment_manifest c) w)"
    have "with_dockerfile ?w2 cs = with_dockerfile w cs"
      by (rule with_dockerfile_cong) simp
    then have ih: "set (List.map_filter write_of (events (deploy_loop cs
         (if admission w (deployment_manifest c) then dd @ [c] else dd, dh,
          if admission w (service_manifest c) then ds @ [c] else ds)) ?w2)) \<subseteq>
       (\<Union>c\<in>set (with_dockerfile w cs).
        {(AppsV1Api, Deployment, deployment_manifest c), (CoreV1Api, Service, service_manifest c)})"
      using Cons[of _ ?w2] by simp
    have wd: "with_dockerfile w (c # cs) = c # with_dockerfile w cs"
      using True by (simp add: with_dockerfile_def)
    show ?thesis
      unfolding d deploy_loop_events_step[OF True] wd map_filter_append set_append writes_cou_set
      using ih by auto
  qed
qed

lemma deploy_loop_writes_admitted:
  assumes "\<forall>c\<in>set (with_dockerfile w cs).
             admission w (deployment_manifest c) \<and> admission w (service_manifest c)"
  shows "List.map_filter write_of (events (deploy_loop cs d) w) =
     concat (map (\<lambda>c. [(AppsV1Api, Deployment, deployment_manifest c),
                        (CoreV1Api, Service, service_manifest c)])
               (with_dockerfile w cs))"
  using assms
proof (induction cs arbitrary: d w)
  case Nil
  show ?case by (simp add: events_def with_dockerfile_def List.map_filter_def)
next
  case (Cons c cs)
  obtain dd dh ds where d: "d = (dd, dh, ds)" by (cases d)
  show ?case
  proof (cases "path_exists (path c @ ''/Dockerfile'') w")
    case False
    with Cons.prems have "\<forall>c\<in>set (with_dockerfile w cs).
             admission w (deployment_manifest c) \<and> admission w (service_manifest c)"
      by (simp add: with_dockerfile_def)
    moreover from False have "with_dockerfile w (c # cs) = with_dockerfile w cs"
      by (simp add: with_dockerfile_def)
    ultimately show ?thesis using Cons.IH[of w d]
      by (simp only: deploy_loop_events_skip[OF False])
  next
    case True
    let ?w2 = "after_cou CoreV1Api Service (service_manifest c)
          (after_cou AppsV1Api Deployment (deployment_manifest c) w)"
    have wd: "with_dockerfile ?w2 cs = with_dockerfile w cs"
      by (rule with_dockerfile_cong) simp
    from Cons.prems True have a: "admission w (deployment_manifest c)" "admission w (service_manifest c)"
      and r: "\<forall>c\<in>set (with_dockerfile w cs).
             admission w (deployment_manifest c) \<and> admission w (service_manifest c)"
      by (simp_all add: with_dockerfile_def)
    from r have "\<forall>c\<in>set (with_dockerfile ?w2 cs).
             admission ?w2 (deployment_manifest c) \<and> admission ?w2 (service_manifest c)"
      unfolding wd by simp
    from Cons.IH[OF this] wd True a show ?thesis
      unfolding d deploy_loop_events_step[OF True]
      by (simp add: map_filter_append with_dockerfile_def writes_cou del: deploy_loop.simps)
  qed
qed

lemma map_filter_none: "list_all (\<lambda>e. f e = None) t \<Longrightarrow> List.map_filter f t = []"
  by (induction t) (simp_all add: List.map_filter_def)

lemma read_write_simps [simp]:
  "read_of (Call cl k (Read n)) = Some (cl, k, n)"
  "read_of (Call cl k (List s)) = None" "read_of (Call cl k (Delete n)) = None"
  "read_of (Call cl k (Create b)) = None" "read_of (Call cl k (Replace n b)) = None"
  "read_of (Input p) = None" "read_of DockerImages = None" "read_of (PoolMap cs) = None"
  "write_of (Call cl k (Read n)) = None"
  "write_of (Call cl k (List s)) = None" "write_of (Call cl k (Delete n)) = None"
  "write_of (Call cl k (Create b)) = Some (cl, k, b)"
  "write_of (Call cl k (Replace n b)) = Some (cl, k, b)"
  "write_of (Input p) = None" "write_of DockerImages = None" "write_of (PoolMap cs) = None"
  by (simp_all add: read_of_def write_of_def)

lemma deletion_passes_emit:
  assumes "\<And>cl k s. P (Call cl k (List s))" "\<And>p. P (Input p)" "\<And>cl k n. P (Call cl k (Delete n))"
  shows "emits P (bind (delete_deployments dd)
           (\<lambda>_. bind (delete_services ds) (\<lambda>_. delete_hpas dh)))"
  by (intro emits_bind emits_delete_deployments emits_delete_services emits_delete_hpas assms)

lemma main_hpa_calls:
  "list_all (\<lambda>e. touches HorizontalPodAutoscaler e \<longrightarrow> read_of e = None \<and> write_of e = None)
     (events (main cs b ig) w)"
proof -
  have "list_all main_event (events (main cs b ig) w)"
    using emits_events[OF main_events] by simp
  moreover have "main_event e \<Longrightarrow> touches HorizontalPodAutoscaler e \<longrightarrow> read_of e = None \<and> write_of e = None" for e
    by (auto simp: main_event_def touches_def read_of_def write_of_def
        split: event.splits request.splits)
  ultimately show ?thesis by (auto simp: list_all_iff)
qed

subsection \<open>A run on a cluster that is in place\<close>




lemma in_place_trace [simp]: "in_place (w\<lparr>trace := t\<rparr>) c = in_place w c"
  by (simp add: in_place_def)

lemma path_exists_trace [simp]: "path_exists p (w\<lparr>trace := t\<rparr>) = path_exists p w"
  by (simp add: path_exists_def)

lemma with_dockerfile_trace [simp]: "with_dockerfile (w\<lparr>trace := t\<rparr>) cs = with_dockerfile w cs"
  by (simp add: with_dockerfile_def)




subsection \<open>What a first run leaves\<close>















subsection \<open>Runs that reach the loop\<close>

lemma reaches_loop_Line:
  "reaches_loop cs b ig w \<Longrightarrow> \<exists>s rest. stdin w = Line s # rest"
  by (auto simp: reaches_loop_def split: list.splits reply.splits)

lemma reaches_loop_build:
  "reaches_loop cs b ig w \<Longrightarrow>
   \<exists>w2. (if b then build_and_push_images cs ig else ret ()) (after_enter w) = (Inr (), w2)"
  by (cases b; cases "build_and_push_images cs ig (after_enter w)")
     (auto simp: reaches_loop_def ret_def split: list.splits reply.splits)

lemma after_enter_fields [simp]:
  "files (after_enter w) = files w" "admission (after_enter w) = admission w"
  "objects (after_enter w) = objects w" "docker_stdout (after_enter w) = docker_stdout w"
  "stdin (after_enter w) = tl (stdin w)" "trace (after_enter w) = trace w @ [Input PressEnter]"
  by (simp_all add: after_enter_def log_def)

lemma input_enter:
  "stdin w = Line s # rest \<Longrightarrow> input PressEnter w = (Inr s, after_enter w)"
  by (simp add: input_Line after_enter_def)

text \<open>A run that reaches the loop: the world the loop starts in, and the events of the
  run.\<close>

lemma main_reach:
  assumes "reaches_loop cs b ig w"
  obtains w2 where
    "(if b then build_and_push_images cs ig else ret ()) (after_enter w) = (Inr (), w2)"
    "main cs b ig w =
       bind (deploy_loop cs ([], [], []))
         (\<lambda>(dd, dh, ds). bind (delete_deployments dd)
            (\<lambda>_. bind (delete_services ds) (\<lambda>_. delete_hpas dh))) w2"
    "events (main cs b ig) w =
       Input PressEnter #
       events (if b then build_and_push_images cs ig else ret ()) (after_enter w) @
       events (bind (deploy_loop cs ([], [], []))
         (\<lambda>(dd, dh, ds). bind (delete_deployments dd)
            (\<lambda>_. bind (delete_services ds) (\<lambda>_. delete_hpas dh)))) w2"
    "files w2 = files w" "admission w2 = admission w"
    "objects w2 Deployment = objects w Deployment" "objects w2 Service = objects w Service"
    "objects w2 HorizontalPodAutoscaler = objects w HorizontalPodAutoscaler"
proof -
  let ?build = "if b then build_and_push_images cs ig else ret ()"
  let ?del = "\<lambda>(dd, dh, ds). bind (delete_deployments dd)
            (\<lambda>_. bind (delete_services ds) (\<lambda>_. delete_hpas dh))"
  let ?tail = "\<lambda>_::unit. bind (deploy_loop cs ([], [], [])) ?del"
  from reaches_loop_Line[OF assms] obtain s rest where s: "stdin w = Line s # rest" by blast
  from reaches_loop_build[OF assms] obtain w2 where b2: "?build (after_enter w) = (Inr (), w2)"
    by blast
  have i: "input PressEnter w = (Inr s, after_enter w)" using s by (rule input_enter)
  have mb: "main_body cs b ig = bind ?build ?tail" by (simp add: main_body_def)
  have tb: "emits (\<lambda>_. True) ?build" by (intro emits_if emits_ret traced_blocks)
  have tdel: "\<And>d. emits (\<lambda>_. True) (?del d)"
    by (intro emits_case_prod emits_bind traced_blocks)
  have ttail: "\<And>u. emits (\<lambda>_. True) (?tail u)" by (intro emits_bind traced_blocks tdel)
  have 1: "main cs b ig w = bind (deploy_loop cs ([], [], [])) ?del w2"
    using i b2 by (simp add: main_unfold mb bind_def)
  have "events (main_body cs b ig) (after_enter w) =
      events ?build (after_enter w) @ events (?tail ()) w2"
    unfolding mb events_bind[OF tb ttail] using b2 by simp
  then have 2: "events (main cs b ig) w = Input PressEnter #
       events ?build (after_enter w) @ events (bind (deploy_loop cs ([], [], [])) ?del) w2"
    using i by (simp add: main_events_unfold)
  have kb: "f w2 = f (after_enter w)" if "keeps f ?build" for f :: "world \<Rightarrow> 'x"
    using that b2 by (metis keeps_def snd_conv)
  have 3: "files w2 = files w" "admission w2 = admission w"
    using kb[of files] kb[of admission] by (simp_all add: keeps_if keeps_ret keeps_build)
  have 4: "objects w2 Deployment = objects w Deployment" "objects w2 Service = objects w Service"
    "objects w2 HorizontalPodAutoscaler = objects w HorizontalPodAutoscaler"
    using kb[of "\<lambda>w. objects w Deployment"] kb[of "\<lambda>w. objects w Service"]
      kb[of "\<lambda>w. objects w HorizontalPodAutoscaler"]
    by (simp_all add: keeps_if keeps_ret keeps_build)
  from b2 1 2 3 4 show thesis by (rule that)
qed

text \<open>Only the loop reads an object or submits a manifest.\<close>

lemma main_reach_reads_writes:
  assumes "reaches_loop cs b ig w"
  obtains w2 where "files w2 = files w" "admission w2 = admission w"
    "List.map_filter read_of (events (main cs b ig) w) =
       List.map_filter read_of (events (deploy_loop cs ([], [], [])) w2)"
    "List.map_filter write_of (events (main cs b ig) w) =
       List.map_filter write_of (events (deploy_loop cs ([], [], [])) w2)"
proof -
  let ?build = "if b then build_and_push_images cs ig else ret ()"
  let ?del = "\<lambda>(dd, dh, ds). bind (delete_deployments dd)
            (\<lambda>_. bind (delete_services ds) (\<lambda>_. delete_hpas dh))"
  from assms obtain w2 where
    e: "events (main cs b ig) w = Input PressEnter # events ?build (after_enter w) @
         events (bind (deploy_loop cs ([], [], [])) ?del) w2"
    and f: "files w2 = files w" "admission w2 = admission w"
    by (rule main_reach)
  have tdel: "\<And>d. emits (\<lambda>_. True) (?del d)"
    by (intro emits_case_prod deletion_passes_emit) simp_all
  obtain r w3 where l: "deploy_loop cs ([], [], []) w2 = (r, w3)"
    by (cases "deploy_loop cs ([], [], []) w2")
  define t0 where "t0 = events ?build (after_enter w)"
  define tl where "tl = events (deploy_loop cs ([], [], [])) w2"
  define t where "t = (case r of Inl e \<Rightarrow> [] | Inr a \<Rightarrow> events (?del a) w3)"
  have el: "events (bind (deploy_loop cs ([], [], [])) ?del) w2 = tl @ t"
    using events_bind[OF traced_blocks(2)[of cs "([], [], [])"] tdel, where w = w2] l
    by (simp add: t_def tl_def split: sum.splits)
  have "emits (\<lambda>e. read_of e = None \<and> write_of e = None) ?build"
    by (intro emits_if emits_ret emits_build) simp_all
  from emits_events[OF this, of "after_enter w"]
  have n0: "list_all (\<lambda>e. read_of e = None \<and> write_of e = None) t0" by (simp add: t0_def)
  have n1: "list_all (\<lambda>e. read_of e = None \<and> write_of e = None) t"
  proof (cases r)
    case (Inl e)
    then show ?thesis by (simp add: t_def)
  next
    case (Inr a)
    obtain dd dh ds where a: "a = (dd, dh, ds)" by (cases a)
    have "emits (\<lambda>e. read_of e = None \<and> write_of e = None) (?del a)"
      unfolding a prod.case by (rule deletion_passes_emit) simp_all
    from emits_events[OF this, of w3] Inr show ?thesis by (simp add: t_def)
  qed
  from n0 n1 have "list_all (\<lambda>e. read_of e = None) t0" "list_all (\<lambda>e. write_of e = None) t0"
    "list_all (\<lambda>e. read_of e = None) t" "list_all (\<lambda>e. write_of e = None) t"
    by (simp_all add: list_all_iff)
  then have n: "List.map_filter read_of t0 = []" "List.map_filter write_of t0 = []"
    "List.map_filter read_of t = []" "List.map_filter write_of t = []"
    by (simp_all add: map_filter_none)
  have e': "events (main cs b ig) w = [Input PressEnter] @ t0 @ tl @ t"
    unfolding e el t0_def by simp
  have i: "List.map_filter read_of [Input PressEnter] = []"
    "List.map_filter write_of [Input PressEnter] = []"
    by (simp_all add: List.map_filter_def)
  have "List.map_filter read_of (events (main cs b ig) w) = List.map_filter read_of tl"
    "List.map_filter write_of (events (main cs b ig) w) = List.map_filter write_of tl"
    unfolding e' map_filter_append n i by simp_all
  with f show thesis unfolding tl_def by (rule that)
qed

subsection \<open>Replies read, and prompts shown\<close>





















subsection \<open>A build that finds no image updated\<close>








lemma with_dockerfile_updates [simp]:
  "with_dockerfile (w\<lparr>docker_stdout := q\<rparr>) cs = with_dockerfile w cs"
  "with_dockerfile (w\<lparr>stdin := i\<rparr>) cs = with_dockerfile w cs"
  "with_dockerfile (log e w) cs = with_dockerfile w cs"
  by (rule with_dockerfile_cong; simp)+



section \<open>Order of the actions (C3)\<close>

text \<open>C3, as the code has it: within one run of \<^verbatim>\<open>main\<close> the pod evictions come
  first (they are issued by the image build, which \<^verbatim>\<open>main\<close> calls before anything
  else), every creation or update comes before any deletion of a Deployment, Service or
  Autoscaler, and so no eviction follows a creation, an update or a deletion.\<close>

theorem main_restart_update_delete_order:
  "all_before is_restart is_create_or_update (events (main challenges build_images ignore_existing) w) \<and>
   all_before is_create_or_update is_deletion (events (main challenges build_images ignore_existing) w) \<and>
   all_before is_restart is_deletion (events (main challenges build_images ignore_existing) w)"
proof (intro conjI)
  show "all_before is_restart is_create_or_update (events (main challenges build_images ignore_existing) w)"
    by (rule sorted_phase_all_before[OF main_events_sorted, where a = 0])
       (auto simp: phase_def is_restart_def is_create_or_update_def is_deletion_def
          split: event.splits request.splits)
  show "all_before is_create_or_update is_deletion (events (main challenges build_images ignore_existing) w)"
    by (rule sorted_phase_all_before[OF main_events_sorted, where a = 1])
       (auto simp: phase_def is_restart_def is_create_or_update_def is_deletion_def
          split: event.splits request.splits)
  show "all_before is_restart is_deletion (events (main challenges build_images ignore_existing) w)"
    by (rule sorted_phase_all_before[OF main_events_sorted, where a = 0])
       (auto simp: phase_def is_restart_def is_create_or_update_def is_deletion_def
          split: event.splits request.splits)
qed

text \<open>The run on \<^const>\<open>rebuild_world\<close> has an eviction, a creation and a deletion, in
  that order.\<close>

theorem main_restart_update_delete_order_witness:
  "all_before is_restart is_create_or_update (events (main [web] True False) rebuild_world) \<and>
   all_before is_create_or_update is_deletion (events (main [web] True False) rebuild_world) \<and>
   all_before is_restart is_deletion (events (main [web] True False) rebuild_world) \<and>
   list_ex is_restart (events (main [web] True False) rebuild_world) \<and>
   list_ex is_create_or_update (events (main [web] True False) rebuild_world) \<and>
   list_ex is_deletion (events (main [web] True False) rebuild_world)"
proof -
  have "list_ex is_restart (events (main [web] True False) rebuild_world) \<and>
   list_ex is_create_or_update (events (main [web] True False) rebuild_world) \<and>
   list_ex is_deletion (events (main [web] True False) rebuild_world)"
    by code_simp
  with main_restart_update_delete_order[of "[web]" True False rebuild_world] show ?thesis by simp
qed

text \<open>As C3 is written, every deletion would come before any eviction: on
  \<^const>\<open>rebuild_world\<close> the Deployment \<^verbatim>\<open>old-99\<close> is deleted after the pod was
  evicted.\<close>

theorem deletion_after_restart_counterexample:
  "\<not> all_before is_deletion is_restart (events (main [web] True False) rebuild_world)"
  by code_simp

section \<open>The "ignore existing" policy (C5)\<close>

text \<open>C5 fails on the code: with \<^verbatim>\<open>ignore_existing\<close> set, the list
  \<^verbatim>\<open>images_repositories\<close> is never assigned, so the first challenge with a Dockerfile
  raises \<^verbatim>\<open>UnboundLocalError\<close>; nothing is built or pushed, whether its tag is in the
  registry or not, and \<^verbatim>\<open>main\<close> ends with that error. Without the flag the list is
  empty and the image that is already in the registry is built and pushed again.\<close>

theorem ignore_existing_raises:
  "fst (build_and_push_images [web, pwn] True registry_world) = Inl UnboundLocalError \<and>
   events (build_and_push_images [web, pwn] True) registry_world = [DockerImages] \<and>
   fst (main [web, pwn] True True registry_world) = Inl UnboundLocalError \<and>
   events (build_and_push_images [web, pwn] False) registry_world =
     [DockerImages,
      PoolMap [''sudo docker build -t registry.local:5000/web-01-ctf /srv/web'',
               ''sudo docker build -t registry.local:5000/pwn-02-rop /srv/pwn''],
      PoolMap [''sudo docker push registry.local:5000/web-01-ctf'',
               ''sudo docker push registry.local:5000/pwn-02-rop''],
      DockerImages]"
  by code_simp

section \<open>The changed images (C6)\<close>

text \<open>C6 fails on the code: the first pass keeps the first digest listed for a
  repository, the second pass compares every line with it. On
  \<^const>\<open>unchanged_world\<close> the listing is the same before and after, and the second
  line of the repository differs from its first: the repository counts as updated and
  its pod is proposed for restart (and, on approval, deleted).\<close>

theorem unchanged_digest_restarts_pod:
  "events (build_and_push_images [web] False) unchanged_world =
     [DockerImages,
      PoolMap [''sudo docker build -t registry.local:5000/web-01-ctf /srv/web''],
      PoolMap [''sudo docker push registry.local:5000/web-01-ctf''],
      DockerImages,
      Call CoreV1Api Pod (List (Some MANAGED_BY)),
      Input (ConfirmDelete Pod [''web-01-ctf-5d9c'']),
      Call CoreV1Api Pod (Delete ''web-01-ctf-5d9c'')]"
  by code_simp

section \<open>Deleting Autoscalers (C8)\<close>

text \<open>C8: when the batch of Autoscalers proposed for deletion is not empty and the
  operator approves it, the deletion pass of \<^verbatim>\<open>main\<close> calls
  \<^verbatim>\<open>delete_namespaced_horizontal_pod_autoscaler\<close> on the core client for the first
  name, which raises \<^verbatim>\<open>AttributeError\<close> and changes nothing. In any run of
  \<^verbatim>\<open>main\<close>, a call that deletes an Autoscaler goes to \<^verbatim>\<open>CoreV1Api\<close> and the run
  ends with that error; the Autoscalers of the namespace are the same after the run as
  before it.\<close>

theorem hpa_delete_through_core_client_raises:
  "(not_deployed (objects w HorizontalPodAutoscaler) deployed_hpas \<noteq> [] \<and>
    stdin w = Line answer # rest \<and> lower answer = ''y'' \<longrightarrow>
      fst (delete_hpas deployed_hpas w) = Inl AttributeError \<and>
      events (delete_hpas deployed_hpas) w =
        [Call AutoscalingV1Api HorizontalPodAutoscaler (List None),
         Input (ConfirmDelete HorizontalPodAutoscaler
                  (not_deployed (objects w HorizontalPodAutoscaler) deployed_hpas)),
         Call CoreV1Api HorizontalPodAutoscaler
           (Delete (hd (not_deployed (objects w HorizontalPodAutoscaler) deployed_hpas)))] \<and>
      objects (snd (delete_hpas deployed_hpas w)) = objects w) \<and>
   (Call cl HorizontalPodAutoscaler (Delete n)
      \<in> set (events (main challenges build_images ignore_existing) w0) \<longrightarrow>
      cl = CoreV1Api \<and> fst (main challenges build_images ignore_existing w0) = Inl AttributeError) \<and>
   objects (snd (main challenges build_images ignore_existing w0)) HorizontalPodAutoscaler =
     objects w0 HorizontalPodAutoscaler"
proof (intro conjI impI)
  assume a: "not_deployed (objects w HorizontalPodAutoscaler) deployed_hpas \<noteq> [] \<and>
    stdin w = Line answer # rest \<and> lower answer = ''y''"
  then obtain x xs where c: "not_deployed (objects w HorizontalPodAutoscaler) deployed_hpas = x # xs"
    by (cases "not_deployed (objects w HorizontalPodAutoscaler) deployed_hpas") auto
  from a have s: "stdin w = Line answer # rest" "lower answer = ''y''" by auto
  note r = delete_hpas_approved[OF c s]
  show "fst (delete_hpas deployed_hpas w) = Inl AttributeError" by (simp add: r)
  show "events (delete_hpas deployed_hpas) w =
        [Call AutoscalingV1Api HorizontalPodAutoscaler (List None),
         Input (ConfirmDelete HorizontalPodAutoscaler
                  (not_deployed (objects w HorizontalPodAutoscaler) deployed_hpas)),
         Call CoreV1Api HorizontalPodAutoscaler
           (Delete (hd (not_deployed (objects w HorizontalPodAutoscaler) deployed_hpas)))]"
    by (simp add: events_def r c)
  show "objects (snd (delete_hpas deployed_hpas w)) = objects w" by (simp add: r)
next
  assume m: "Call cl HorizontalPodAutoscaler (Delete n)
      \<in> set (events (main challenges build_images ignore_existing) w0)"
  from emits_events[OF main_events, of challenges build_images ignore_existing w0] m
  have "main_event (Call cl HorizontalPodAutoscaler (Delete n))"
    by (auto simp: list_all_iff)
  then show "cl = CoreV1Api" by (simp add: main_event_def)
  from raises_afterD[OF main_raises, of challenges build_images ignore_existing w0] obtain t where
    t: "trace (snd (main challenges build_images ignore_existing w0)) = trace w0 @ t"
    "list_ex is_hpa_delete t \<longrightarrow> fst (main challenges build_images ignore_existing w0) = Inl AttributeError"
    by auto
  from t(1) have "events (main challenges build_images ignore_existing) w0 = t"
    by (rule events_simp)
  with m have "list_ex is_hpa_delete t"
    by (auto simp: list_ex_iff intro!: bexI[of _ "Call cl HorizontalPodAutoscaler (Delete n)"])
  with t(2) show "fst (main challenges build_images ignore_existing w0) = Inl AttributeError" by simp
next
  show "objects (snd (main challenges build_images ignore_existing w0)) HorizontalPodAutoscaler =
     objects w0 HorizontalPodAutoscaler" by (rule main_keeps_hpa)
qed

text \<open>On \<^const>\<open>hpa_world\<close> the operator answers \<^verbatim>\<open>Y\<close>: the call goes to
  \<^verbatim>\<open>CoreV1Api\<close>, \<^verbatim>\<open>main\<close> ends with \<^verbatim>\<open>AttributeError\<close> and the Autoscaler is
  still there.\<close>

theorem hpa_delete_through_core_client_raises_witness:
  "fst (delete_hpas [] (hpa_world\<lparr>stdin := [Line ''Y'']\<rparr>)) = Inl AttributeError \<and>
   events (delete_hpas []) (hpa_world\<lparr>stdin := [Line ''Y'']\<rparr>) =
        [Call AutoscalingV1Api HorizontalPodAutoscaler (List None),
         Input (ConfirmDelete HorizontalPodAutoscaler [''web-01-ctf'']),
         Call CoreV1Api HorizontalPodAutoscaler (Delete ''web-01-ctf'')] \<and>
   Call CoreV1Api HorizontalPodAutoscaler (Delete ''web-01-ctf'')
      \<in> set (events (main [web] False False) hpa_world) \<and>
   fst (main [web] False False hpa_world) = Inl AttributeError \<and>
   objects (snd (main [web] False False hpa_world)) HorizontalPodAutoscaler = [hpa_manifest web]"
proof -
  have h1: "not_deployed (objects (hpa_world\<lparr>stdin := [Line ''Y'']\<rparr>) HorizontalPodAutoscaler) []
              = [''web-01-ctf'']"
    by code_simp
  have h2: "stdin (hpa_world\<lparr>stdin := [Line ''Y'']\<rparr>) = Line ''Y'' # []" by simp
  have h3: "lower ''Y'' = ''y''" by code_simp
  have h4: "Call CoreV1Api HorizontalPodAutoscaler (Delete ''web-01-ctf'')
      \<in> set (events (main [web] False False) hpa_world)" by code_simp
  have h5: "objects hpa_world HorizontalPodAutoscaler = [hpa_manifest web]"
    by (simp add: hpa_world_def)
  from hpa_delete_through_core_client_raises[of "hpa_world\<lparr>stdin := [Line ''Y'']\<rparr>" "[]" "''Y''" "[]"
      CoreV1Api "''web-01-ctf''" "[web]" False False hpa_world] h1 h2 h3 h4 h5
  show ?thesis by simp
qed

section \<open>Which pods are restarted (C9)\<close>

text \<open>C9: the names \<^verbatim>\<open>update_pods\<close> proposes, and the names it deletes, are those of
  the managed pods whose first container runs one of the changed images. A pod whose
  first container runs another image is not among them, whatever its other containers
  run (pod names being unique in the namespace).\<close>

theorem restart_selection_first_container:
  "(Input (ConfirmDelete Pod names) \<in> set (events (update_pods images) w) \<longrightarrow>
      names = map metadata_name (filter (first_image_in images)
                (filter (matches (Some MANAGED_BY)) (objects w Pod)))) \<and>
   (Call cl Pod (Delete n) \<in> set (events (update_pods images) w) \<longrightarrow>
      n \<in> set (map metadata_name (filter (first_image_in images)
                (filter (matches (Some MANAGED_BY)) (objects w Pod))))) \<and>
   (spec pod = PodSpec (c # cs) \<and> image c \<notin> set images \<and>
    (\<forall>q\<in>set (objects w Pod). metadata_name q = metadata_name pod \<longrightarrow> q = pod) \<longrightarrow>
      metadata_name pod \<notin> set (map metadata_name (filter (first_image_in images)
                (filter (matches (Some MANAGED_BY)) (objects w Pod)))))"
proof (intro conjI impI)
  assume "Input (ConfirmDelete Pod names) \<in> set (events (update_pods images) w)"
  from update_pods_events[OF this] obtain names' where
    sel: "select_pods (filter (matches (Some MANAGED_BY)) (objects w Pod)) images [] = Inr names'"
    and "names = names'" by auto
  with select_pods_spec[OF sel]
  show "names = map metadata_name (filter (first_image_in images)
                (filter (matches (Some MANAGED_BY)) (objects w Pod)))" by simp
next
  assume "Call cl Pod (Delete n) \<in> set (events (update_pods images) w)"
  from update_pods_events[OF this] obtain names' where
    sel: "select_pods (filter (matches (Some MANAGED_BY)) (objects w Pod)) images [] = Inr names'"
    and "n \<in> set names'" by auto
  with select_pods_spec[OF sel]
  show "n \<in> set (map metadata_name (filter (first_image_in images)
                (filter (matches (Some MANAGED_BY)) (objects w Pod))))" by simp
next
  assume a: "spec pod = PodSpec (c # cs) \<and> image c \<notin> set images \<and>
    (\<forall>q\<in>set (objects w Pod). metadata_name q = metadata_name pod \<longrightarrow> q = pod)"
  then have "\<not> first_image_in images pod"
    by (simp add: first_image_in_def first_container_image_def)
  with a show "metadata_name pod \<notin> set (map metadata_name (filter (first_image_in images)
                (filter (matches (Some MANAGED_BY)) (objects w Pod))))"
    by auto
qed

text \<open>On \<^const>\<open>sidecar_world\<close> the pod \<^verbatim>\<open>gateway-7f2a\<close> runs the changed image in
  its second container only: the prompt lists the other pod alone.\<close>

theorem restart_selection_first_container_witness:
  "Input (ConfirmDelete Pod [''web-01-ctf-5d9c''])
     \<in> set (events (update_pods [''registry.local:5000/web-01-ctf'']) sidecar_world) \<and>
   Call CoreV1Api Pod (Delete ''web-01-ctf-5d9c'')
     \<in> set (events (update_pods [''registry.local:5000/web-01-ctf'']) sidecar_world) \<and>
   ''registry.local:5000/web-01-ctf'' \<in> image ` set (tl (case spec sidecar_pod of PodSpec cs \<Rightarrow> cs)) \<and>
   metadata_name sidecar_pod
     \<notin> set (map metadata_name (filter (first_image_in [''registry.local:5000/web-01-ctf''])
                (filter (matches (Some MANAGED_BY)) (objects sidecar_world Pod)))) \<and>
   [''web-01-ctf-5d9c''] = map metadata_name (filter (first_image_in [''registry.local:5000/web-01-ctf''])
                (filter (matches (Some MANAGED_BY)) (objects sidecar_world Pod)))"
proof -
  have h1: "Input (ConfirmDelete Pod [''web-01-ctf-5d9c''])
     \<in> set (events (update_pods [''registry.local:5000/web-01-ctf'']) sidecar_world)"
    by code_simp
  have h2: "Call CoreV1Api Pod (Delete ''web-01-ctf-5d9c'')
     \<in> set (events (update_pods [''registry.local:5000/web-01-ctf'']) sidecar_world)"
    by code_simp
  have h3: "spec sidecar_pod = PodSpec (\<lparr> container_name = ''proxy'',
                          image = ''registry.local:5000/proxy'',
                          containerPorts = [8080] \<rparr> # [\<lparr> container_name = ''web-01-ctf'',
                          image = ''registry.local:5000/web-01-ctf'',
                          containerPorts = [5000] \<rparr>])"
    by (simp add: sidecar_pod_def)
  have h4: "image \<lparr> container_name = ''proxy'', image = ''registry.local:5000/proxy'',
                          containerPorts = [8080] \<rparr> \<notin> set [''registry.local:5000/web-01-ctf'']"
    by simp
  have h5: "\<forall>q\<in>set (objects sidecar_world Pod). metadata_name q = metadata_name sidecar_pod \<longrightarrow> q = sidecar_pod"
    by (simp add: sidecar_world_def sidecar_pod_def web_pod_def)
  have h6: "''registry.local:5000/web-01-ctf'' \<in> image ` set (tl (case spec sidecar_pod of PodSpec cs \<Rightarrow> cs))"
    by (simp add: sidecar_pod_def)
  from restart_selection_first_container[of "[''web-01-ctf-5d9c'']" "[''registry.local:5000/web-01-ctf'']"
      sidecar_world CoreV1Api "''web-01-ctf-5d9c''" sidecar_pod _ _] h1 h2 h3 h4 h5 h6
  show ?thesis by blast
qed

section \<open>\<^verbatim>\<open>clean_cluster\<close> (C10)\<close>

text \<open>C10: with names unique per kind, as they are in a namespace, \<^verbatim>\<open>clean_cluster\<close>
  returns normally and leaves exactly the Services and Deployments that do not carry the
  management label; Autoscalers and pods are as before, and the only calls it issues are
  the two listings and one delete per labelled Service and Deployment.\<close>

theorem clean_cluster_deletes_managed_services_and_deployments:
  assumes "distinct (map metadata_name (objects w Service))"
    and "distinct (map metadata_name (objects w Deployment))"
  shows "fst (clean_cluster w) = Inr () \<and>
    objects (snd (clean_cluster w)) Service =
      filter (\<lambda>r. \<not> matches (Some MANAGED_BY) r) (objects w Service) \<and>
    objects (snd (clean_cluster w)) Deployment =
      filter (\<lambda>r. \<not> matches (Some MANAGED_BY) r) (objects w Deployment) \<and>
    objects (snd (clean_cluster w)) HorizontalPodAutoscaler = objects w HorizontalPodAutoscaler \<and>
    objects (snd (clean_cluster w)) Pod = objects w Pod \<and>
    events clean_cluster w =
      Call CoreV1Api Service (List (Some MANAGED_BY)) #
      map (\<lambda>n. Call CoreV1Api Service (Delete n))
        (map metadata_name (filter (matches (Some MANAGED_BY)) (objects w Service))) @
      Call AppsV1Api Deployment (List (Some MANAGED_BY)) #
      map (\<lambda>n. Call AppsV1Api Deployment (Delete n))
        (map metadata_name (filter (matches (Some MANAGED_BY)) (objects w Deployment)))"
  using assms
  by (simp add: clean_cluster_result remove_listed_distinct events_def)

text \<open>On \<^const>\<open>stale_world\<close> both Services and the labelled Deployment go, the
  hand-made Deployment, the Autoscaler and the pod stay.\<close>

theorem clean_cluster_deletes_managed_services_and_deployments_witness:
  "distinct (map metadata_name (objects stale_world Service)) \<and>
   distinct (map metadata_name (objects stale_world Deployment)) \<and>
   fst (clean_cluster stale_world) = Inr () \<and>
   objects (snd (clean_cluster stale_world)) Service = [] \<and>
   objects (snd (clean_cluster stale_world)) Deployment = [handmade] \<and>
   objects (snd (clean_cluster stale_world)) HorizontalPodAutoscaler = [hpa_manifest web] \<and>
   objects (snd (clean_cluster stale_world)) Pod = [web_pod] \<and>
   events clean_cluster stale_world =
     [Call CoreV1Api Service (List (Some MANAGED_BY)),
      Call CoreV1Api Service (Delete ''old-99''),
      Call CoreV1Api Service (Delete ''web-01-ctf''),
      Call AppsV1Api Deployment (List (Some MANAGED_BY)),
      Call AppsV1Api Deployment (Delete ''old-99'')]"
proof -
  have d: "distinct (map metadata_name (objects stale_world Service))"
    "distinct (map metadata_name (objects stale_world Deployment))"
    by code_simp+
  have f: "filter (\<lambda>r. \<not> matches (Some MANAGED_BY) r) (objects stale_world Service) = []"
    "filter (\<lambda>r. \<not> matches (Some MANAGED_BY) r) (objects stale_world Deployment) = [handmade]"
    "objects stale_world HorizontalPodAutoscaler = [hpa_manifest web]"
    "objects stale_world Pod = [web_pod]"
    "map metadata_name (filter (matches (Some MANAGED_BY)) (objects stale_world Service)) = [''old-99'', ''web-01-ctf'']"
    "map metadata_name (filter (matches (Some MANAGED_BY)) (objects stale_world Deployment)) = [''old-99'']"
    by code_simp+
  from clean_cluster_deletes_managed_services_and_deployments[OF d] d f show ?thesis by simp
qed

section \<open>The confirmation prompts (C7)\<close>

text \<open>Three of the four batches are guarded as the specification says. When the
  operator answers a line, a non-empty batch of stale Deployments, of stale Services or
  of pods to restart shows one prompt that lists its names; one delete call per name
  follows exactly when the answer is \<^verbatim>\<open>y\<close> or \<^verbatim>\<open>Y\<close>; on any other answer no delete
  call is issued; either way the pass returns normally.\<close>

lemma served_batches_gate:
  assumes "stdin w = Line answer # rest"
  shows
   "(not_deployed (objects w Deployment) deployed_deployments \<noteq> [] \<longrightarrow>
       fst (delete_deployments deployed_deployments w) = Inr () \<and>
       events (delete_deployments deployed_deployments) w =
         [Call AppsV1Api Deployment (List None),
          Input (ConfirmDelete Deployment (not_deployed (objects w Deployment) deployed_deployments))] @
         (if answer = ''y'' \<or> answer = ''Y''
          then map (\<lambda>n. Call AppsV1Api Deployment (Delete n))
                 (not_deployed (objects w Deployment) deployed_deployments)
          else [])) \<and>
    (not_deployed (objects w Service) deployed_services \<noteq> [] \<longrightarrow>
       fst (delete_services deployed_services w) = Inr () \<and>
       events (delete_services deployed_services) w =
         [Call CoreV1Api Service (List None),
          Input (ConfirmDelete Service (not_deployed (objects w Service) deployed_services))] @
         (if answer = ''y'' \<or> answer = ''Y''
          then map (\<lambda>n. Call CoreV1Api Service (Delete n))
                 (not_deployed (objects w Service) deployed_services)
          else [])) \<and>
    (select_pods (filter (matches (Some MANAGED_BY)) (objects w Pod)) images [] = Inr pods_to_delete \<and>
     pods_to_delete \<noteq> [] \<longrightarrow>
       fst (update_pods images w) = Inr () \<and>
       events (update_pods images) w =
         [Call CoreV1Api Pod (List (Some MANAGED_BY)),
          Input (ConfirmDelete Pod pods_to_delete)] @
         (if answer = ''y'' \<or> answer = ''Y''
          then map (\<lambda>n. Call CoreV1Api Pod (Delete n)) pods_to_delete
          else []))"
proof (intro conjI impI)
  assume n: "not_deployed (objects w Deployment) deployed_deployments \<noteq> []"
  note r = delete_deployments_Line[OF assms n]
  show "fst (delete_deployments deployed_deployments w) = Inr ()" by (simp add: r)
  show "events (delete_deployments deployed_deployments) w =
         [Call AppsV1Api Deployment (List None),
          Input (ConfirmDelete Deployment (not_deployed (objects w Deployment) deployed_deployments))] @
         (if answer = ''y'' \<or> answer = ''Y''
          then map (\<lambda>n. Call AppsV1Api Deployment (Delete n))
                 (not_deployed (objects w Deployment) deployed_deployments)
          else [])"
    by (simp add: events_def r lower_y)
next
  assume n: "not_deployed (objects w Service) deployed_services \<noteq> []"
  note r = delete_services_Line[OF assms n]
  show "fst (delete_services deployed_services w) = Inr ()" by (simp add: r)
  show "events (delete_services deployed_services) w =
         [Call CoreV1Api Service (List None),
          Input (ConfirmDelete Service (not_deployed (objects w Service) deployed_services))] @
         (if answer = ''y'' \<or> answer = ''Y''
          then map (\<lambda>n. Call CoreV1Api Service (Delete n))
                 (not_deployed (objects w Service) deployed_services)
          else [])"
    by (simp add: events_def r lower_y)
next
  assume "select_pods (filter (matches (Some MANAGED_BY)) (objects w Pod)) images [] = Inr pods_to_delete \<and>
     pods_to_delete \<noteq> []"
  then have s: "select_pods (filter (matches (Some MANAGED_BY)) (objects w Pod)) images [] = Inr pods_to_delete"
    and n: "pods_to_delete \<noteq> []" by auto
  note r = update_pods_Line[OF assms s n]
  show "fst (update_pods images w) = Inr ()" by (simp add: r)
  show "events (update_pods images) w =
         [Call CoreV1Api Pod (List (Some MANAGED_BY)),
          Input (ConfirmDelete Pod pods_to_delete)] @
         (if answer = ''y'' \<or> answer = ''Y''
          then map (\<lambda>n. Call CoreV1Api Pod (Delete n)) pods_to_delete
          else [])"
    by (simp add: events_def r lower_y)
qed

text \<open>C7 says that each batch of proposed deletions is guarded by one prompt and that
  the destructive calls are issued exactly when the operator answers \<^verbatim>\<open>y\<close> or
  \<^verbatim>\<open>Y\<close>. For the batch of Autoscalers the code does not issue them. On
  \<^const>\<open>two_hpa_world\<close> the operator approves the deletion of the two Autoscalers:
  the run looks up the delete method for the first name on the core client, which does
  not serve Autoscalers, and ends with \<^verbatim>\<open>AttributeError\<close>; there is no delete call
  for the second name, and both Autoscalers remain.\<close>

theorem approved_autoscaler_batch_not_deleted:
  "stdin two_hpa_world = [Line [], Line ''y''] \<and>
   objects two_hpa_world HorizontalPodAutoscaler = [hpa_manifest web, hpa_manifest pwn] \<and>
   events (main [web] False False) two_hpa_world =
     [Input PressEnter,
      Call AppsV1Api Deployment (Read ''web-01-ctf''),
      Call AppsV1Api Deployment (Create (deployment_manifest web)),
      Call CoreV1Api Service (Read ''web-01-ctf''),
      Call CoreV1Api Service (Create (service_manifest web)),
      Call AppsV1Api Deployment (List None),
      Call CoreV1Api Service (List None),
      Call AutoscalingV1Api HorizontalPodAutoscaler (List None),
      Input (ConfirmDelete HorizontalPodAutoscaler [''web-01-ctf'', ''pwn-02-rop'']),
      Call CoreV1Api HorizontalPodAutoscaler (Delete ''web-01-ctf'')] \<and>
   \<not> serves CoreV1Api HorizontalPodAutoscaler \<and>
   fst (main [web] False False two_hpa_world) = Inl AttributeError \<and>
   objects (snd (main [web] False False two_hpa_world)) HorizontalPodAutoscaler =
     [hpa_manifest web, hpa_manifest pwn]"
  by code_simp

section \<open>What is proposed for deletion (C1)\<close>




section \<open>One Deployment and one Service per workload (C4)\<close>

text \<open>C4, as the code has it: a run of \<^verbatim>\<open>main\<close> that reaches the loop (the operator
  answers the first prompt with a line and the image build, if asked for, returns
  normally) reads, for each challenge with a Dockerfile and in their order, the
  Deployment and then the Service named by the challenge's id: one create-or-update of
  each. Every manifest it submits is the Deployment or the Service manifest of such a
  challenge, and when the API server admits them, each is submitted exactly once. No
  run of \<^verbatim>\<open>main\<close>, whether it reaches the loop or not, reads or writes an Autoscaler:
  the block that would submit the Autoscaler manifest is guarded by
  \<^verbatim>\<open>1 + 1 == 1\<close>.\<close>

theorem deployment_and_service_per_workload:
  "(reaches_loop challenges build_images ignore_existing w \<longrightarrow>
      List.map_filter read_of (events (main challenges build_images ignore_existing) w) =
        concat (map (\<lambda>c. [(AppsV1Api, Deployment, challenge_id c),
                           (CoreV1Api, Service, challenge_id c)])
                  (with_dockerfile w challenges)) \<and>
      set (List.map_filter write_of (events (main challenges build_images ignore_existing) w)) \<subseteq>
        (\<Union>c\<in>set (with_dockerfile w challenges).
           {(AppsV1Api, Deployment, deployment_manifest c),
            (CoreV1Api, Service, service_manifest c)}) \<and>
      ((\<forall>c\<in>set (with_dockerfile w challenges).
          admission w (deployment_manifest c) \<and> admission w (service_manifest c)) \<longrightarrow>
       List.map_filter write_of (events (main challenges build_images ignore_existing) w) =
         concat (map (\<lambda>c. [(AppsV1Api, Deployment, deployment_manifest c),
                            (CoreV1Api, Service, service_manifest c)])
                   (with_dockerfile w challenges)))) \<and>
   list_all (\<lambda>e. touches HorizontalPodAutoscaler e \<longrightarrow> read_of e = None \<and> write_of e = None)
     (events (main challenges build_images ignore_existing) w)"
proof (intro conjI impI)
  {
    assume "reaches_loop challenges build_images ignore_existing w"
    then obtain w2 where f: "files w2 = files w" "admission w2 = admission w"
      and r: "List.map_filter read_of (events (main challenges build_images ignore_existing) w) =
         List.map_filter read_of (events (deploy_loop challenges ([], [], [])) w2)"
      and wr: "List.map_filter write_of (events (main challenges build_images ignore_existing) w) =
         List.map_filter write_of (events (deploy_loop challenges ([], [], [])) w2)"
      by (rule main_reach_reads_writes)
    have wd: "with_dockerfile w2 challenges = with_dockerfile w challenges"
      by (rule with_dockerfile_cong) (rule f)
    show "List.map_filter read_of (events (main challenges build_images ignore_existing) w) =
        concat (map (\<lambda>c. [(AppsV1Api, Deployment, challenge_id c),
                           (CoreV1Api, Service, challenge_id c)])
                  (with_dockerfile w challenges))"
      unfolding r deploy_loop_reads wd ..
    show "set (List.map_filter write_of (events (main challenges build_images ignore_existing) w)) \<subseteq>
        (\<Union>c\<in>set (with_dockerfile w challenges).
           {(AppsV1Api, Deployment, deployment_manifest c),
            (CoreV1Api, Service, service_manifest c)})"
      unfolding wr using deploy_loop_writes_subset[of challenges "([], [], [])" w2] unfolding wd .
  }
  {
    assume r: "reaches_loop challenges build_images ignore_existing w"
      and a: "\<forall>c\<in>set (with_dockerfile w challenges).
          admission w (deployment_manifest c) \<and> admission w (service_manifest c)"
    from r obtain w2 where f: "files w2 = files w" "admission w2 = admission w"
      and wr: "List.map_filter write_of (events (main challenges build_images ignore_existing) w) =
         List.map_filter write_of (events (deploy_loop challenges ([], [], [])) w2)"
      by (rule main_reach_reads_writes)
    have wd: "with_dockerfile w2 challenges = with_dockerfile w challenges"
      by (rule with_dockerfile_cong) (rule f)
    from a have "\<forall>c\<in>set (with_dockerfile w2 challenges).
          admission w2 (deployment_manifest c) \<and> admission w2 (service_manifest c)"
      unfolding wd f by simp
    from deploy_loop_writes_admitted[OF this, of "([], [], [])"]
    show "List.map_filter write_of (events (main challenges build_images ignore_existing) w) =
         concat (map (\<lambda>c. [(AppsV1Api, Deployment, deployment_manifest c),
                            (CoreV1Api, Service, service_manifest c)])
                   (with_dockerfile w challenges))"
      unfolding wr wd .
  }
  show "list_all (\<lambda>e. touches HorizontalPodAutoscaler e \<longrightarrow> read_of e = None \<and> write_of e = None)
     (events (main challenges build_images ignore_existing) w)"
    by (rule main_hpa_calls)
qed

text \<open>On \<^const>\<open>busy_world\<close>, in a run that builds the images and restarts a pod
  first, the challenge with a Dockerfile gets its Deployment and its Service; the one
  without is skipped.\<close>

theorem deployment_and_service_per_workload_witness:
  "reaches_loop [web, pwn] True False busy_world \<and>
   with_dockerfile busy_world [web, pwn] = [web] \<and>
   List.map_filter read_of (events (main [web, pwn] True False) busy_world) =
     [(AppsV1Api, Deployment, ''web-01-ctf''), (CoreV1Api, Service, ''web-01-ctf'')] \<and>
   List.map_filter write_of (events (main [web, pwn] True False) busy_world) =
     [(AppsV1Api, Deployment, deployment_manifest web), (CoreV1Api, Service, service_manifest web)] \<and>
   list_all (\<lambda>e. \<not> touches HorizontalPodAutoscaler e \<or> read_of e = None \<and> write_of e = None)
     (events (main [web, pwn] True False) busy_world)"
proof -
  have r: "reaches_loop [web, pwn] True False busy_world" by code_simp
  have d: "with_dockerfile busy_world [web, pwn] = [web]" by code_simp
  have a: "\<forall>c\<in>set (with_dockerfile busy_world [web, pwn]).
          admission busy_world (deployment_manifest c) \<and> admission busy_world (service_manifest c)"
    by (simp add: busy_world_def stale_world_def)
  have i: "challenge_id web = ''web-01-ctf''" by code_simp
  from deployment_and_service_per_workload[of "[web, pwn]" True False busy_world] r a
  show ?thesis unfolding d by (simp add: i)
qed

text \<open>As C4 is written, the run would also create an Autoscaler for the challenge: on
  \<^const>\<open>fresh_world\<close> the only call on Autoscalers is the listing of the deletion
  pass, and the namespace holds none afterwards.\<close>

theorem no_autoscaler_created_counterexample:
  "with_dockerfile fresh_world [web] = [web] \<and>
   filter (touches HorizontalPodAutoscaler) (events (main [web] False False) fresh_world) =
     [Call AutoscalingV1Api HorizontalPodAutoscaler (List None)] \<and>
   fst (main [web] False False fresh_world) = Inr () \<and>
   objects (snd (main [web] False False fresh_world)) HorizontalPodAutoscaler = [] \<and>
   objects (snd (main [web] False False fresh_world)) Deployment = [deployment_manifest web] \<and>
   objects (snd (main [web] False False fresh_world)) Service = [service_manifest web]"
  by code_simp

section \<open>Running twice (C2)\<close>




end
